theory Spec2Isabelle
  imports Complex_Main "HOL-Library.Multiset"
begin

section \<open>Shared conventions of the embedding\<close>

text \<open>
  The Go sources under \<open>pkg/audio\<close> and \<open>pkg/fingerprint\<close> are embedded as HOL functions.
  A Go \<open>int\<close> is an unbounded \<open>int\<close> (slice lengths and indices stay far below
  \<open>2^63\<close>), a \<open>float64\<close> is a \<open>real\<close> (exact arithmetic; NaN and the infinities are
  outside the model), a slice is a list. Every run-time panic of the source (integer
  division by zero, index or slice bounds out of range, \<open>make\<close> with a negative length)
  and every returned \<open>error\<close> is a value \<open>Inl e\<close> of the result type.
\<close>

datatype error =
    ErrTooShort int
  | ErrUnsupportedChannels int
  | ErrRequiresMono int
  | ErrSegmentFailed error
  | ErrInvalidSpectrogram
  | PanicDivideByZero
  | PanicIndexOutOfRange
  | PanicSliceBounds
  | PanicMakeNegativeLen

definition bindE :: "error + 'a \<Rightarrow> ('a \<Rightarrow> error + 'b) \<Rightarrow> error + 'b" where
  "bindE m f = (case m of Inl e \<Rightarrow> Inl e | Inr x \<Rightarrow> f x)"

text \<open>Go's \<open>/\<close> on \<open>int\<close>: truncation toward zero, panic on a zero divisor.\<close>

definition tquot :: "int \<Rightarrow> int \<Rightarrow> int" where
  "tquot a b = sgn a * sgn b * (\<bar>a\<bar> div \<bar>b\<bar>)"

definition go_quot :: "int \<Rightarrow> int \<Rightarrow> error + int" where
  "go_quot a b = (if b = 0 then Inl PanicDivideByZero else Inr (tquot a b))"

text \<open>Go's conversion \<open>int(x)\<close> of a finite \<open>float64\<close>: the fraction is discarded.\<close>

definition go_int_of_float :: "real \<Rightarrow> int" where
  "go_int_of_float x = (if 0 \<le> x then \<lfloor>x\<rfloor> else \<lceil>x\<rceil>)"

definition len :: "'a list \<Rightarrow> int" where
  "len xs = int (length xs)"

text \<open>\<open>make([]T, n)\<close>: a slice of \<open>n\<close> zero values.\<close>

definition go_make :: "'a \<Rightarrow> int \<Rightarrow> error + 'a list" where
  "go_make z n = (if n < 0 then Inl PanicMakeNegativeLen else Inr (replicate (nat n) z))"

text \<open>\<open>xs[i]\<close> as a read and \<open>xs[i] = v\<close> as a write.\<close>

definition index :: "'a list \<Rightarrow> int \<Rightarrow> error + 'a" where
  "index xs i =
     (if 0 \<le> i \<and> i < len xs then Inr (xs ! nat i) else Inl PanicIndexOutOfRange)"

definition store :: "'a list \<Rightarrow> int \<Rightarrow> 'a \<Rightarrow> error + 'a list" where
  "store xs i v =
     (if 0 \<le> i \<and> i < len xs then Inr (xs[nat i := v]) else Inl PanicIndexOutOfRange)"

text \<open>\<open>xs[lo:hi]\<close> on a slice whose capacity is its length.\<close>

definition slice :: "'a list \<Rightarrow> int \<Rightarrow> int \<Rightarrow> error + 'a list" where
  "slice xs lo hi =
     (if 0 \<le> lo \<and> lo \<le> hi \<and> hi \<le> len xs
      then Inr (take (nat (hi - lo)) (drop (nat lo) xs))
      else Inl PanicSliceBounds)"

text \<open>\<open>copy(dst, src)\<close>: the first \<open>min(len(dst), len(src))\<close> elements are overwritten.\<close>

definition copy :: "'a list \<Rightarrow> 'a list \<Rightarrow> 'a list" where
  "copy dst src =
     take (min (length dst) (length src)) src @ drop (min (length dst) (length src)) dst"

text \<open>
  A counted loop \<open>for i := lo; i < hi; i++\<close> whose body updates a state and may panic:
  the indices \<open>below lo hi\<close> are visited in ascending order and the first panic ends
  the loop.
\<close>

definition below :: "int \<Rightarrow> int \<Rightarrow> int list" where
  "below lo hi = [lo .. hi - 1]"

fun forE :: "int list \<Rightarrow> (int \<Rightarrow> 's \<Rightarrow> error + 's) \<Rightarrow> 's \<Rightarrow> error + 's" where
  "forE [] body st = Inr st"
| "forE (i # is) body st =
     (case body i st of Inl e \<Rightarrow> Inl e | Inr st' \<Rightarrow> forE is body st')"

section \<open>pkg/audio/audio.go: the data model\<close>

record AudioData =
  Samples :: "real list"
  SampleRate :: int
  Channels :: int
  Duration :: real

record Spectrogram =
  Data :: "real list list"
  FreqBins :: int
  TimeBins :: int
  TimePoints :: "real list"
  FreqPoints :: "real list"

section \<open>pkg/audio/pcm.go\<close>

record PCMProcessor =
  TargetSampleRate :: int
  FrameSize :: int
  HopSize :: int

definition NewPCMProcessor :: PCMProcessor where
  "NewPCMProcessor = \<lparr>TargetSampleRate = 44100, FrameSize = 1024, HopSize = 512\<rparr>"

definition ConvertToMono :: "PCMProcessor \<Rightarrow> AudioData \<Rightarrow> error + AudioData" where
  "ConvertToMono p data =
     (if Channels data = 1 then Inr data
      else if Channels data \<noteq> 2 then Inl (ErrUnsupportedChannels (Channels data))
      else
        bindE (go_make 0 (tquot (len (Samples data)) 2)) (\<lambda>monoSamples0.
        bindE (forE (below 0 (len monoSamples0))
                 (\<lambda>i mono.
                    bindE (index (Samples data) (i * 2)) (\<lambda>l.
                    bindE (index (Samples data) (i * 2 + 1)) (\<lambda>r.
                    store mono i ((l + r) / 2.0))))
                 monoSamples0)
          (\<lambda>monoSamples.
             Inr \<lparr>Samples = monoSamples, SampleRate = SampleRate data,
                  Channels = 1, Duration = Duration data\<rparr>)))"

text \<open>The loop of \<open>Normalize\<close> that finds the largest absolute sample, started at \<open>0.0\<close>.\<close>

definition maxAbs :: "real list \<Rightarrow> real" where
  "maxAbs xs = foldl (\<lambda>m sample. if \<bar>sample\<bar> > m then \<bar>sample\<bar> else m) 0 xs"

definition Normalize :: "PCMProcessor \<Rightarrow> AudioData \<Rightarrow> error + AudioData" where
  "Normalize p data =
     (if len (Samples data) = 0 then Inr data
      else if maxAbs (Samples data) < 0.001 \<or> \<bar>maxAbs (Samples data) - 1.0\<bar> < 0.001
      then Inr data
      else Inr \<lparr>Samples = map (\<lambda>sample. sample / maxAbs (Samples data)) (Samples data),
                SampleRate = SampleRate data,
                Channels = Channels data,
                Duration = Duration data\<rparr>)"

text \<open>
  One output sample of \<open>ResampleTo\<close>: the body of the inner loop for channel \<open>ch\<close> and
  output frame \<open>i\<close>, writing into \<open>resampledSamples\<close>.
\<close>

definition resampleStep ::
  "AudioData \<Rightarrow> real \<Rightarrow> int \<Rightarrow> int \<Rightarrow> int \<Rightarrow> real list \<Rightarrow> error + real list" where
  "resampleStep data ratio origFrames ch i out =
     (let origPos = real_of_int i / ratio;
          idx1 = \<lfloor>origPos\<rfloor>;
          idx2 = idx1 + 1;
          frac = origPos - real_of_int idx1;
          idx1' = (if idx1 \<ge> origFrames then origFrames - 1 else idx1);
          idx2' = (if idx2 \<ge> origFrames then origFrames - 1 else idx2)
      in bindE (index (Samples data) (idx1' * Channels data + ch)) (\<lambda>sample1.
         bindE (index (Samples data) (idx2' * Channels data + ch)) (\<lambda>sample2.
         store out (i * Channels data + ch) (sample1 * (1 - frac) + sample2 * frac))))"

definition ResampleTo :: "PCMProcessor \<Rightarrow> AudioData \<Rightarrow> int \<Rightarrow> error + AudioData" where
  "ResampleTo p data targetSampleRate =
     (if SampleRate data = targetSampleRate then Inr data
      else
        let ratio = real_of_int targetSampleRate / real_of_int (SampleRate data) in
        bindE (go_quot (len (Samples data)) (Channels data)) (\<lambda>origFrames.
        let newFrames = go_int_of_float (real_of_int origFrames * ratio) in
        bindE (go_make 0 (newFrames * Channels data)) (\<lambda>resampledSamples.
        bindE (forE (below 0 (Channels data))
                 (\<lambda>ch. forE (below 0 newFrames) (resampleStep data ratio origFrames ch))
                 resampledSamples) (\<lambda>out.
        Inr \<lparr>Samples = out, SampleRate = targetSampleRate, Channels = Channels data,
             Duration = real_of_int newFrames / real_of_int targetSampleRate\<rparr>))))"

text \<open>
  One frame of \<open>SegmentIntoFrames\<close>: the body of the loop for frame \<open>i\<close>, with the
  clamping of \<open>endIdx\<close>, the \<open>copy\<close> and the zero-padding loop.
\<close>

definition segmentFrame :: "PCMProcessor \<Rightarrow> AudioData \<Rightarrow> int \<Rightarrow> error + real list" where
  "segmentFrame p data i =
     (let startIdx = i * HopSize p;
          endIdx0 = startIdx + FrameSize p;
          endIdx = (if endIdx0 > len (Samples data) then len (Samples data) else endIdx0)
      in bindE (go_make 0 (FrameSize p)) (\<lambda>frame.
         bindE (slice (Samples data) startIdx endIdx) (\<lambda>src.
         if endIdx - startIdx < FrameSize p
         then forE (below (endIdx - startIdx) (FrameSize p)) (\<lambda>j fr. store fr j 0) (copy frame src)
         else Inr (copy frame src))))"

definition SegmentIntoFrames :: "PCMProcessor \<Rightarrow> AudioData \<Rightarrow> error + real list list" where
  "SegmentIntoFrames p data =
     (if len (Samples data) < FrameSize p then Inl (ErrTooShort (FrameSize p))
      else
        bindE (go_quot (len (Samples data) - FrameSize p) (HopSize p)) (\<lambda>q.
        let numFrames = 1 + q in
        bindE (go_make [] numFrames) (\<lambda>frames.
        forE (below 0 numFrames)
          (\<lambda>i fs. bindE (segmentFrame p data i) (\<lambda>frame. store fs i frame))
          frames)))"

section \<open>pkg/audio: AudioUtils\<close>

definition CalculateRMS :: "real list \<Rightarrow> real" where
  "CalculateRMS samples =
     (if len samples = 0 then 0.0
      else sqrt (foldl (\<lambda>sumSquares sample. sumSquares + sample * sample) 0.0 samples
                 / real_of_int (len samples)))"

definition CalculateEnergy :: "real list \<Rightarrow> real" where
  "CalculateEnergy samples =
     (if len samples = 0 then 0.0
      else foldl (\<lambda>energy sample. energy + sample * sample) 0.0 samples)"

section \<open>pkg/audio/spectral.go\<close>

text \<open>
  The analyzer's fields \<open>HopSize\<close> and \<open>SampleRate\<close> carry the prefix \<open>Analyzer\<close> here,
  since \<open>PCMProcessor\<close> and \<open>AudioData\<close> already own these field names.
\<close>

record SpectralAnalyzerImpl =
  WindowSize :: int
  AnalyzerHopSize :: int
  AnalyzerSampleRate :: int
  WindowType :: string
  MinFreq :: real
  MaxFreq :: real
  LogScaleBase :: real
  NormalizeSpec :: bool
  MelScale :: bool
  NumMelBins :: int

definition NewSpectralAnalyzer :: SpectralAnalyzerImpl where
  "NewSpectralAnalyzer =
     \<lparr>WindowSize = 1024, AnalyzerHopSize = 512, AnalyzerSampleRate = 44100,
      WindowType = ''hamming'', MinFreq = 0, MaxFreq = 22050, LogScaleBase = 10.0,
      NormalizeSpec = True, MelScale = False, NumMelBins = 128\<rparr>"

text \<open>The window coefficients, for index \<open>i\<close> of a frame of \<open>n\<close> samples.\<close>

definition hammingCoeff :: "int \<Rightarrow> int \<Rightarrow> real" where
  "hammingCoeff i n = 0.54 - 0.46 * cos (2 * pi * real_of_int i / real_of_int (n - 1))"

definition hannCoeff :: "int \<Rightarrow> int \<Rightarrow> real" where
  "hannCoeff i n = 0.5 * (1 - cos (2 * pi * real_of_int i / real_of_int (n - 1)))"

definition blackmanCoeff :: "int \<Rightarrow> int \<Rightarrow> real" where
  "blackmanCoeff i n =
     0.42 - 0.5 * cos (2 * pi * real_of_int i / real_of_int (n - 1))
          + 0.08 * cos (4 * pi * real_of_int i / real_of_int (n - 1))"

definition ApplyWindow :: "SpectralAnalyzerImpl \<Rightarrow> real list \<Rightarrow> error + real list" where
  "ApplyWindow s frame0 =
     bindE (if len frame0 \<noteq> WindowSize s
            then bindE (go_make 0 (WindowSize s)) (\<lambda>newFrame. Inr (copy newFrame frame0))
            else Inr frame0) (\<lambda>frame.
     if WindowType s = ''hamming''
     then Inr (map (\<lambda>i. frame ! nat i * hammingCoeff i (len frame)) (below 0 (len frame)))
     else if WindowType s = ''hann''
     then Inr (map (\<lambda>i. frame ! nat i * hannCoeff i (len frame)) (below 0 (len frame)))
     else if WindowType s = ''blackman''
     then Inr (map (\<lambda>i. frame ! nat i * blackmanCoeff i (len frame)) (below 0 (len frame)))
     else if WindowType s = ''rectangular''
     then Inr (copy (replicate (length frame) 0) frame)
     else Inr (map (\<lambda>i. frame ! nat i * hammingCoeff i (len frame)) (below 0 (len frame))))"

text \<open>
  \<open>fft.FFT\<close> belongs to the library \<open>github.com/mjibson/go-dsp\<close>, not to this repository.
  It is represented by what it computes: the discrete Fourier transform of its input,
  \<open>X[k] = \<Sum>n. x[n] * exp (- 2 * pi * \<i> * k * n / N)\<close>, a slice as long as the input.
\<close>

definition FFT :: "complex list \<Rightarrow> complex list" where
  "FFT x =
     map (\<lambda>k. \<Sum>n \<leftarrow> [0 ..< length x].
                 x ! n * cis (- (2 * pi * real k * real n / real (length x))))
         [0 ..< length x]"

definition ComputeFFT :: "SpectralAnalyzerImpl \<Rightarrow> real list \<Rightarrow> complex list" where
  "ComputeFFT s windowedFrame = FFT (map (\<lambda>val. Complex val 0) windowedFrame)"

definition ComputeMagnitudeSpectrum ::
  "SpectralAnalyzerImpl \<Rightarrow> complex list \<Rightarrow> error + real list" where
  "ComputeMagnitudeSpectrum s fftResult =
     (let numBins = tquot (len fftResult) 2 + 1 in
      bindE (go_make 0 numBins) (\<lambda>magnitudeSpectrum.
      forE (below 0 numBins)
        (\<lambda>i sp. bindE (index fftResult i) (\<lambda>c. store sp i (cmod c)))
        magnitudeSpectrum))"

definition ComputePowerSpectrum ::
  "SpectralAnalyzerImpl \<Rightarrow> complex list \<Rightarrow> error + real list" where
  "ComputePowerSpectrum s fftResult =
     (let numBins = tquot (len fftResult) 2 + 1 in
      bindE (go_make 0 numBins) (\<lambda>powerSpectrum.
      forE (below 0 numBins)
        (\<lambda>i sp. bindE (index fftResult i) (\<lambda>c. store sp i ((cmod c) ^ 2)))
        powerSpectrum))"

definition ApplyLogScale :: "SpectralAnalyzerImpl \<Rightarrow> real list \<Rightarrow> real list" where
  "ApplyLogScale s spectrum =
     (if LogScaleBase s \<le> 1.0 then spectrum
      else map (\<lambda>val. ln (val + 1 / 10 ^ 10) / ln (LogScaleBase s)) spectrum)"

definition NormalizeSpectrum :: "SpectralAnalyzerImpl \<Rightarrow> real list \<Rightarrow> real list" where
  "NormalizeSpectrum s spectrum =
     (let maxVal = foldl (\<lambda>m val. if val > m then val else m) 0.0 spectrum in
      if maxVal < 1 / 10 ^ 10 then spectrum
      else map (\<lambda>val. val / maxVal) spectrum)"

text \<open>
  The body of the frame loop of \<open>ComputeSpectrogram\<close>: window, transform, power
  spectrum, then the two optional post-processing steps.
\<close>

definition processFrame :: "SpectralAnalyzerImpl \<Rightarrow> real list \<Rightarrow> error + real list" where
  "processFrame s frame =
     bindE (ApplyWindow s frame) (\<lambda>windowedFrame.
     bindE (ComputePowerSpectrum s (ComputeFFT s windowedFrame)) (\<lambda>powerSpectrum.
     let powerSpectrum1 =
           (if LogScaleBase s > 1.0 then ApplyLogScale s powerSpectrum else powerSpectrum);
         powerSpectrum2 =
           (if NormalizeSpec s then NormalizeSpectrum s powerSpectrum1 else powerSpectrum1)
     in Inr powerSpectrum2))"

text \<open>
  An \<open>error\<close> returned by \<open>SegmentIntoFrames\<close> is wrapped by \<open>ComputeSpectrogram\<close>; a
  panic passes through as it is.
\<close>

fun isPanic :: "error \<Rightarrow> bool" where
  "isPanic PanicDivideByZero = True"
| "isPanic PanicIndexOutOfRange = True"
| "isPanic PanicSliceBounds = True"
| "isPanic PanicMakeNegativeLen = True"
| "isPanic _ = False"

text \<open>
  \<open>ComputeSpectrogram\<close> has a pointer receiver and assigns to its fields: the model
  returns the analyzer as the call leaves it, next to the result.
\<close>

definition ComputeSpectrogram ::
  "SpectralAnalyzerImpl \<Rightarrow> AudioData \<Rightarrow> int \<Rightarrow> int
     \<Rightarrow> SpectralAnalyzerImpl \<times> (error + Spectrogram)" where
  "ComputeSpectrogram s0 data windowSize hopSize =
     (let s1 = (if windowSize > 0 then s0\<lparr>WindowSize := windowSize\<rparr> else s0);
          s2 = (if hopSize > 0 then s1\<lparr>AnalyzerHopSize := hopSize\<rparr> else s1)
      in if Channels data \<noteq> 1 then (s2, Inl (ErrRequiresMono (Channels data)))
         else
           let s = s2\<lparr>AnalyzerSampleRate := SampleRate data\<rparr>;
               processor = NewPCMProcessor\<lparr>FrameSize := WindowSize s,
                                            HopSize := AnalyzerHopSize s\<rparr>
           in (s,
               case SegmentIntoFrames processor data of
                 Inl err \<Rightarrow> Inl (if isPanic err then err else ErrSegmentFailed err)
               | Inr frames \<Rightarrow>
                   let numFrames = len frames;
                       numBins = tquot (WindowSize s) 2 + 1
                   in bindE (go_make [] numFrames) (\<lambda>spectrogramData0.
                      bindE (forE (below 0 numFrames)
                               (\<lambda>i sd. bindE (processFrame s (frames ! nat i))
                                          (\<lambda>powerSpectrum. store sd i powerSpectrum))
                               spectrogramData0) (\<lambda>spectrogramData.
                      bindE (go_make (0::real) numFrames) (\<lambda>timePoints0.
                      let timePoints =
                            map (\<lambda>i. real_of_int (i * AnalyzerHopSize s)
                                        / real_of_int (AnalyzerSampleRate s))
                                (below 0 numFrames)
                      in bindE (go_make (0::real) numBins) (\<lambda>freqPoints0.
                         let freqPoints =
                               map (\<lambda>i. real_of_int i * real_of_int (AnalyzerSampleRate s)
                                           / real_of_int (WindowSize s))
                                   (below 0 numBins)
                         in Inr \<lparr>Data = spectrogramData, FreqBins = numBins,
                                 TimeBins = numFrames, TimePoints = timePoints,
                                 FreqPoints = freqPoints\<rparr>))))))"

section \<open>pkg/fingerprint: the peak extractor\<close>

record Peak =
  TimeIndex :: int
  FreqIndex :: int
  Time :: real
  Frequency :: real
  Amplitude :: real
  IsLocalMaxima :: bool

record PeakExtractor =
  NeighborhoodSize :: int
  AbsoluteThreshold :: real
  RelativeThreshold :: real
  MaxPeaksPerFrame :: int
  MinFrequency :: real
  MaxFrequency :: real

definition NewPeakExtractor :: PeakExtractor where
  "NewPeakExtractor =
     \<lparr>NeighborhoodSize = 3, AbsoluteThreshold = 0.01, RelativeThreshold = 0.1,
      MaxPeaksPerFrame = 5, MinFrequency = 100.0, MaxFrequency = 4000.0\<rparr>"

text \<open>The global maximum for relative thresholding: both loops, started at \<open>0.0\<close>.\<close>

definition maxAmplitude :: "real list list \<Rightarrow> real" where
  "maxAmplitude dat =
     foldl (\<lambda>m frame. foldl (\<lambda>m' amplitude. if amplitude > m' then amplitude else m') m frame)
           0.0 dat"

definition effectiveThreshold :: "PeakExtractor \<Rightarrow> Spectrogram \<Rightarrow> real" where
  "effectiveThreshold p s =
     (let relativeThresholdValue = maxAmplitude (Data s) * RelativeThreshold p in
      if relativeThresholdValue > AbsoluteThreshold p then relativeThresholdValue
      else AbsoluteThreshold p)"

text \<open>
  The loop over \<open>FreqPoints\<close> that maps the band to bin indices. The state is
  \<open>(minFreqIndex, maxFreqIndex)\<close>; \<open>i\<close> is the index of the head of the list; the
  \<open>break\<close> ends the recursion.
\<close>

fun freqIndexLoop :: "PeakExtractor \<Rightarrow> real list \<Rightarrow> int \<Rightarrow> int \<times> int \<Rightarrow> int \<times> int" where
  "freqIndexLoop p [] i (minFreqIndex, maxFreqIndex) = (minFreqIndex, maxFreqIndex)"
| "freqIndexLoop p (freq # rest) i (minFreqIndex, maxFreqIndex) =
     (let minFreqIndex' =
            (if freq \<ge> MinFrequency p \<and> minFreqIndex = 0 then i else minFreqIndex)
      in if freq > MaxFrequency p then (minFreqIndex', i - 1)
         else freqIndexLoop p rest (i + 1) (minFreqIndex', maxFreqIndex))"

definition freqIndexRange :: "PeakExtractor \<Rightarrow> Spectrogram \<Rightarrow> int \<times> int" where
  "freqIndexRange p s = freqIndexLoop p (FreqPoints s) 0 (0, len (FreqPoints s) - 1)"

definition index2 :: "'a list list \<Rightarrow> int \<Rightarrow> int \<Rightarrow> error + 'a" where
  "index2 d t f = bindE (index d t) (\<lambda>row. index row f)"

text \<open>
  The local-maximum test. \<open>scanDf\<close> is the inner loop over \<open>df\<close> for one \<open>dt\<close>,
  \<open>scanDt\<close> the outer loop over \<open>dt\<close>; both return the value of \<open>isLocalMax\<close>, and a
  \<open>False\<close> from the inner loop ends the outer one.
\<close>

fun scanDf :: "Spectrogram \<Rightarrow> int \<Rightarrow> int \<Rightarrow> real \<Rightarrow> int \<Rightarrow> int list \<Rightarrow> error + bool" where
  "scanDf s t f amplitude dt [] = Inr True"
| "scanDf s t f amplitude dt (df # dfs) =
     (if dt = 0 \<and> df = 0 then scanDf s t f amplitude dt dfs
      else
        let nt = t + dt; nf = f + df in
        if nt \<ge> 0 \<and> nt < TimeBins s \<and> nf \<ge> 0 \<and> nf < FreqBins s
        then bindE (index2 (Data s) nt nf) (\<lambda>v.
               if v > amplitude then Inr False
               else scanDf s t f amplitude dt dfs)
        else scanDf s t f amplitude dt dfs)"

fun scanDt :: "Spectrogram \<Rightarrow> int \<Rightarrow> int \<Rightarrow> real \<Rightarrow> int list \<Rightarrow> int list \<Rightarrow> error + bool" where
  "scanDt s t f amplitude [] dfs = Inr True"
| "scanDt s t f amplitude (dt # dts) dfs =
     bindE (scanDf s t f amplitude dt dfs) (\<lambda>isLocalMax.
       if \<not> isLocalMax then Inr False
       else scanDt s t f amplitude dts dfs)"

definition isLocalMax :: "PeakExtractor \<Rightarrow> Spectrogram \<Rightarrow> int \<Rightarrow> int \<Rightarrow> real \<Rightarrow> error + bool" where
  "isLocalMax p s t f amplitude =
     scanDt s t f amplitude
       (below (- NeighborhoodSize p) (NeighborhoodSize p + 1))
       (below (- NeighborhoodSize p) (NeighborhoodSize p + 1))"

text \<open>The body of the loop over the frequency bins of frame \<open>t\<close>.\<close>

definition visitBin ::
  "PeakExtractor \<Rightarrow> Spectrogram \<Rightarrow> real \<Rightarrow> int \<Rightarrow> int \<Rightarrow> Peak list \<Rightarrow> error + Peak list" where
  "visitBin p s threshold t f framePeaks =
     bindE (index2 (Data s) t f) (\<lambda>amplitude.
     if amplitude < threshold then Inr framePeaks
     else
       bindE (isLocalMax p s t f amplitude) (\<lambda>localMax.
       if localMax
       then bindE (index (TimePoints s) t) (\<lambda>time.
            bindE (index (FreqPoints s) f) (\<lambda>freq.
            Inr (framePeaks @
                 [\<lparr>TimeIndex = t, FreqIndex = f, Time = time, Frequency = freq,
                   Amplitude = amplitude, IsLocalMaxima = True\<rparr>])))
       else Inr framePeaks))"

definition framePeaks ::
  "PeakExtractor \<Rightarrow> Spectrogram \<Rightarrow> real \<Rightarrow> int \<times> int \<Rightarrow> int \<Rightarrow> error + Peak list" where
  "framePeaks p s threshold band t =
     forE (below (fst band) (snd band + 1)) (visitBin p s threshold t) []"

text \<open>
  \<open>sort.Slice\<close> belongs to the Go standard library; it is not stable. The extractor takes
  it as the parameter \<open>srt\<close>, and \<open>sortSliceContract\<close> states what the library promises
  for the comparison \<open>framePeaks[i].Amplitude > framePeaks[j].Amplitude\<close>: the result is
  a permutation in which no later element is \<open>less\<close> than an earlier one.
\<close>

definition sortSliceContract :: "(Peak list \<Rightarrow> Peak list) \<Rightarrow> bool" where
  "sortSliceContract srt \<longleftrightarrow>
     (\<forall>xs. mset (srt xs) = mset xs
          \<and> sorted_wrt (\<lambda>a b. \<not> Amplitude b > Amplitude a) (srt xs))"

text \<open>The body of the loop over the time frames.\<close>

definition visitFrame ::
  "(Peak list \<Rightarrow> Peak list) \<Rightarrow> PeakExtractor \<Rightarrow> Spectrogram \<Rightarrow> real \<Rightarrow> int \<times> int
     \<Rightarrow> int \<Rightarrow> Peak list \<Rightarrow> error + Peak list" where
  "visitFrame srt p s threshold band t allPeaks =
     bindE (framePeaks p s threshold band t) (\<lambda>fps.
     if len fps > 0
     then
       let sortedPeaks = srt fps in
       bindE (if len sortedPeaks > MaxPeaksPerFrame p
              then slice sortedPeaks 0 (MaxPeaksPerFrame p)
              else Inr sortedPeaks) (\<lambda>kept.
       Inr (allPeaks @ kept))
     else Inr allPeaks)"

text \<open>The spectrogram is passed by pointer: \<open>None\<close> is \<open>nil\<close>.\<close>

definition ExtractPeaks ::
  "(Peak list \<Rightarrow> Peak list) \<Rightarrow> PeakExtractor \<Rightarrow> Spectrogram option \<Rightarrow> error + Peak list" where
  "ExtractPeaks srt p spectrogram =
     (case spectrogram of
        None \<Rightarrow> Inl ErrInvalidSpectrogram
      | Some s \<Rightarrow>
          if len (Data s) = 0 \<or> len (Data s ! 0) = 0 then Inl ErrInvalidSpectrogram
          else
            forE (below 0 (TimeBins s))
              (visitFrame srt p s (effectiveThreshold p s) (freqIndexRange p s))
              [])"

text \<open>
  An instance of \<open>srt\<close> to run the extractor on concrete inputs: insertion sort in
  descending order of amplitude.
\<close>

fun insertPeak :: "Peak \<Rightarrow> Peak list \<Rightarrow> Peak list" where
  "insertPeak x [] = [x]"
| "insertPeak x (y # ys) =
     (if Amplitude x \<ge> Amplitude y then x # y # ys else y # insertPeak x ys)"

fun sortPeaks :: "Peak list \<Rightarrow> Peak list" where
  "sortPeaks [] = []"
| "sortPeaks (x # xs) = insertPeak x (sortPeaks xs)"

section \<open>Reference notions and example inputs\<close>

text \<open>
  The peak level \<open>M = max |s|\<close> of a buffer as the specification words it, with \<open>0\<close>
  for the empty buffer. It is compared below with the loop \<open>maxAbs\<close> of the source.
\<close>

definition peakLevel :: "real list \<Rightarrow> real" where
  "peakLevel xs = (if xs = [] then 0 else Max ((\<lambda>s. \<bar>s\<bar>) ` set xs))"

definition quiet :: AudioData where
  "quiet = \<lparr>Samples = [1 / 2, - 1 / 4], SampleRate = 8000, Channels = 1, Duration = 1\<rparr>"

definition segP :: PCMProcessor where
  "segP = \<lparr>TargetSampleRate = 44100, FrameSize = 2, HopSize = 1\<rparr>"

definition segD :: AudioData where
  "segD = \<lparr>Samples = [1, 2, 3], SampleRate = 8000, Channels = 1, Duration = 1\<rparr>"

definition hopZero :: PCMProcessor where
  "hopZero = \<lparr>TargetSampleRate = 44100, FrameSize = 2, HopSize = 0\<rparr>"

definition stereo48k :: AudioData where
  "stereo48k = \<lparr>Samples = [0, 0, 0, 0], SampleRate = 48000, Channels = 2, Duration = 1\<rparr>"

definition silence :: AudioData where
  "silence = \<lparr>Samples = replicate 1024 0, SampleRate = 44100, Channels = 1,
               Duration = 1024 / 44100\<rparr>"

text \<open>
  The band limits as the specification words them: \<open>f_lo\<close> is the first bin whose
  frequency is at least \<open>min_freq\<close>, \<open>f_hi\<close> the last bin whose frequency is at most
  \<open>max_freq\<close>. They are compared below with \<open>freqIndexRange\<close> of the source.
\<close>

definition specLowBin :: "real list \<Rightarrow> real \<Rightarrow> int option" where
  "specLowBin freqPoints minFreq =
     (case filter (\<lambda>i. freqPoints ! nat i \<ge> minFreq) (below 0 (len freqPoints)) of
        [] \<Rightarrow> None | i # _ \<Rightarrow> Some i)"

definition specHighBin :: "real list \<Rightarrow> real \<Rightarrow> int option" where
  "specHighBin freqPoints maxFreq =
     (case filter (\<lambda>i. freqPoints ! nat i \<le> maxFreq) (below 0 (len freqPoints)) of
        [] \<Rightarrow> None | i # is \<Rightarrow> Some (last (i # is)))"

definition fromZero :: PeakExtractor where
  "fromZero = NewPeakExtractor\<lparr>MinFrequency := 0\<rparr>"

definition lowTone :: Spectrogram where
  "lowTone = \<lparr>Data = [[5, 1, 1]], FreqBins = 3, TimeBins = 1, TimePoints = [0],
               FreqPoints = [0, 100, 200]\<rparr>"

text \<open>A neighbour cell \<open>(nt, nf)\<close> inside the spectrogram bounds that holds a larger value.\<close>

definition louder :: "Spectrogram \<Rightarrow> real \<Rightarrow> int \<Rightarrow> int \<Rightarrow> bool" where
  "louder s amplitude nt nf \<longleftrightarrow>
     0 \<le> nt \<and> nt < TimeBins s \<and> 0 \<le> nf \<and> nf < FreqBins s
     \<and> (\<exists>v. index2 (Data s) nt nf = Inr v \<and> v > amplitude)"

definition quieter :: "Spectrogram \<Rightarrow> real \<Rightarrow> int \<Rightarrow> int \<Rightarrow> bool" where
  "quieter s amplitude nt nf \<longleftrightarrow>
     (0 \<le> nt \<and> nt < TimeBins s \<and> 0 \<le> nf \<and> nf < FreqBins s
      \<longrightarrow> (\<exists>v. index2 (Data s) nt nf = Inr v \<and> v \<le> amplitude))"

text \<open>
  What the source records in a peak it appends for cell \<open>(t, f)\<close>, and the two tests the
  cell has passed.
\<close>

definition peakAt ::
  "PeakExtractor \<Rightarrow> Spectrogram \<Rightarrow> real \<Rightarrow> int \<Rightarrow> int \<Rightarrow> Peak \<Rightarrow> bool" where
  "peakAt p s threshold t f pk \<longleftrightarrow>
     TimeIndex pk = t \<and> FreqIndex pk = f
     \<and> index2 (Data s) t f = Inr (Amplitude pk)
     \<and> index (TimePoints s) t = Inr (Time pk)
     \<and> index (FreqPoints s) f = Inr (Frequency pk)
     \<and> IsLocalMaxima pk
     \<and> Amplitude pk \<ge> threshold
     \<and> isLocalMax p s t f (Amplitude pk) = Inr True"

text \<open>Example inputs for the peak extractor.\<close>

definition narrow :: PeakExtractor where
  "narrow = NewPeakExtractor\<lparr>NeighborhoodSize := 1\<rparr>"

definition capOne :: PeakExtractor where
  "capOne = NewPeakExtractor\<lparr>NeighborhoodSize := 1, MaxPeaksPerFrame := 1\<rparr>"

definition ridge :: Spectrogram where
  "ridge = \<lparr>Data = [[1, 4, 4, 6]], FreqBins = 4, TimeBins = 1, TimePoints = [0],
             FreqPoints = [50, 150, 250, 350]\<rparr>"

definition ridgeLow :: Peak where
  "ridgeLow = \<lparr>TimeIndex = 0, FreqIndex = 1, Time = 0, Frequency = 150, Amplitude = 4,
                IsLocalMaxima = True\<rparr>"

definition ridgeHigh :: Peak where
  "ridgeHigh = \<lparr>TimeIndex = 0, FreqIndex = 3, Time = 0, Frequency = 350, Amplitude = 6,
                 IsLocalMaxima = True\<rparr>"

text \<open>
  A spectrogram whose redundant fields agree: \<open>TimeBins\<close> rows of \<open>FreqBins\<close> values, one
  time point per row and one frequency point per bin.
\<close>

definition wellFormed :: "Spectrogram \<Rightarrow> bool" where
  "wellFormed s \<longleftrightarrow>
     Data s \<noteq> [] \<and> TimeBins s = len (Data s) \<and> 0 < FreqBins s
     \<and> (\<forall>row \<in> set (Data s). len row = FreqBins s)
     \<and> len (TimePoints s) = TimeBins s \<and> len (FreqPoints s) = FreqBins s"

section \<open>Properties: AudioUtils\<close>

lemma len_eq_0_iff: "len xs = 0 \<longleftrightarrow> xs = []"
  by (simp add: len_def)

text \<open>
  Claim C10. For every non-empty sample slice \<open>s\<close>, \<open>CalculateRMS s\<close> is the square root
  of \<open>CalculateEnergy s\<close> divided by the number of samples; on the empty slice both
  functions return \<open>0\<close>.
\<close>

theorem C10_rms_energy:
  "(s \<noteq> [] \<longrightarrow> CalculateRMS s = sqrt (CalculateEnergy s / real (length s)))
   \<and> CalculateRMS [] = 0 \<and> CalculateEnergy [] = 0"
  by (simp add: CalculateRMS_def CalculateEnergy_def len_def)

theorem C10_rms_energy_witness:
  "[3, 4 :: real] \<noteq> [] \<and> CalculateEnergy [3, 4] = 25
   \<and> CalculateRMS [3, 4] = sqrt (25 / 2)"
  using C10_rms_energy [of "[3, 4]"]
  by (simp add: CalculateEnergy_def len_def)

section \<open>Properties: Normalize and ResampleTo\<close>


lemma foldl_maxAbs_fold:
  "foldl (\<lambda>m sample. if \<bar>sample\<bar> > m then \<bar>sample\<bar> else m) (a::real) xs
     = fold max (map abs xs) a"
proof (induction xs arbitrary: a)
  case Nil
  then show ?case by simp
next
  case (Cons x xs)
  have "(if a < b then b else a) = max b a" for b :: real
    by (simp add: max_def)
  then show ?case using Cons.IH by simp
qed

lemma foldl_maxAbs_Max:
  "foldl (\<lambda>m sample. if \<bar>sample\<bar> > m then \<bar>sample\<bar> else m) (a::real) xs
     = Max (insert a (abs ` set xs))"
  using Max.set_eq_fold [of a "map abs xs"] by (simp add: foldl_maxAbs_fold)

lemma maxAbs_peakLevel: "maxAbs xs = peakLevel xs"
proof (cases xs)
  case Nil
  then show ?thesis by (simp add: maxAbs_def peakLevel_def)
next
  case (Cons y ys)
  have "Max (insert 0 (abs ` set xs)) = Max (abs ` set xs)"
    using Cons by (simp add: max_def Max_ge_iff) 
  then show ?thesis using Cons
    by (simp add: maxAbs_def peakLevel_def foldl_maxAbs_Max del: foldl_Cons)
qed

text \<open>
  Claim C7. \<open>Normalize\<close> returns its argument unchanged when the peak level \<open>M\<close> of the
  samples is below \<open>1e-3\<close> or within \<open>1e-3\<close> of \<open>1\<close>; otherwise the result has the same
  number of samples, its \<open>i\<close>-th sample is \<open>s[i] / M\<close>, and sample rate, channel count
  and duration are those of the argument.
\<close>

theorem C7_normalize:
  fixes x :: AudioData
  defines "M \<equiv> peakLevel (Samples x)"
  shows "(M < 1 / 1000 \<or> \<bar>M - 1\<bar> < 1 / 1000 \<longrightarrow> Normalize p x = Inr x)
     \<and> (\<not> (M < 1 / 1000 \<or> \<bar>M - 1\<bar> < 1 / 1000) \<longrightarrow>
          (\<exists>y. Normalize p x = Inr y
             \<and> length (Samples y) = length (Samples x)
             \<and> (\<forall>i < length (Samples x). Samples y ! i = Samples x ! i / M)
             \<and> SampleRate y = SampleRate x \<and> Channels y = Channels x
             \<and> Duration y = Duration x))"
  unfolding M_def
  by (simp add: Normalize_def maxAbs_peakLevel len_eq_0_iff) 


lemma peakLevel_quiet: "peakLevel (Samples quiet) = 1 / 2"
  by (simp add: quiet_def peakLevel_def)

theorem C7_normalize_witness:
  "\<not> (peakLevel (Samples quiet) < 1 / 1000 \<or> \<bar>peakLevel (Samples quiet) - 1\<bar> < 1 / 1000)
   \<and> Normalize NewPCMProcessor quiet
       = Inr \<lparr>Samples = [1, - 1 / 2], SampleRate = 8000, Channels = 1, Duration = 1\<rparr>"
proof -
  have h: "\<not> (peakLevel (Samples quiet) < 1 / 1000 \<or> \<bar>peakLevel (Samples quiet) - 1\<bar> < 1 / 1000)"
    by (simp add: peakLevel_quiet)
  from C7_normalize [of quiet NewPCMProcessor] h
  obtain y where y: "Normalize NewPCMProcessor quiet = Inr y"
     "length (Samples y) = length (Samples quiet)"
     "\<forall>i < length (Samples quiet). Samples y ! i = Samples quiet ! i / peakLevel (Samples quiet)"
     "SampleRate y = SampleRate quiet" "Channels y = Channels quiet" "Duration y = Duration quiet"
    by blast
  have l: "length (Samples y) = 2" using y(2) by (simp add: quiet_def)
  have "Samples y ! 0 = 1" "Samples y ! 1 = - 1 / 2"
    using y(3) by (simp_all add: peakLevel_quiet) (simp_all add: quiet_def)
  with l have "Samples y = [1, - 1 / 2]"
    by (cases "Samples y"; cases "tl (Samples y)") auto
  with y(4-6) have "y = \<lparr>Samples = [1, - 1 / 2], SampleRate = 8000, Channels = 1, Duration = 1\<rparr>"
    by (cases y) (simp add: quiet_def)
  with y(1) h show ?thesis by simp
qed

text \<open>
  Claim C5. \<open>Normalize\<close> is idempotent, and \<open>ResampleTo\<close> at the buffer's own sample
  rate returns the buffer unchanged.
\<close>

theorem C5_idempotent:
  "(\<exists>y. Normalize p x = Inr y \<and> Normalize p y = Inr y)
   \<and> ResampleTo p x (SampleRate x) = Inr x"
proof -
  let ?M = "peakLevel (Samples x)"
  have res: "ResampleTo p x (SampleRate x) = Inr x" by (simp add: ResampleTo_def)
  show ?thesis
  proof (cases "Samples x = [] \<or> ?M < 1 / 1000 \<or> \<bar>?M - 1\<bar> < 1 / 1000")
    case True
    then have "Normalize p x = Inr x"
      by (auto simp: Normalize_def maxAbs_peakLevel len_eq_0_iff)
    with res show ?thesis by simp
  next
    case False
    define y where "y = \<lparr>Samples = map (\<lambda>s. s / ?M) (Samples x), SampleRate = SampleRate x,
                Channels = Channels x, Duration = Duration x\<rparr>"
    from False have n: "Normalize p x = Inr y"
      by (simp add: Normalize_def maxAbs_peakLevel len_eq_0_iff y_def)
    from False have ne: "Samples x \<noteq> []" and Mpos: "?M > 0" by auto
    have "abs ` set (Samples y) = (\<lambda>v. v / ?M) ` (abs ` set (Samples x))"
      using Mpos by (auto simp: y_def image_image)
    moreover have "Max ((\<lambda>v. v / ?M) ` (abs ` set (Samples x))) = Max (abs ` set (Samples x)) / ?M"
      using ne Mpos
      by (intro mono_Max_commute [symmetric]) (auto simp: mono_def divide_right_mono)
    ultimately have "peakLevel (Samples y) = 1"
      using ne Mpos by (simp add: peakLevel_def y_def)
    then have "Normalize p y = Inr y"
      by (simp add: Normalize_def maxAbs_peakLevel)
    with n res show ?thesis by simp
  qed
qed

section \<open>Properties: loops and SegmentIntoFrames\<close>

lemma bindE_Inr [simp]: "bindE (Inr x) f = f x"
  by (simp add: bindE_def)

lemma bindE_Inl [simp]: "bindE (Inl e) f = Inl e"
  by (simp add: bindE_def)

lemma below_empty [simp]: "hi \<le> lo \<Longrightarrow> below lo hi = []"
  by (simp add: below_def)

lemma below_step: "lo < hi \<Longrightarrow> below lo hi = lo # below (lo + 1) hi"
  by (simp add: below_def upto_rec1)

lemma length_below [simp]: "length (below lo hi) = nat (hi - lo)"
  by (simp add: below_def)

lemma nth_below: "0 \<le> k \<Longrightarrow> lo + k < hi \<Longrightarrow> below lo hi ! nat k = lo + k"
  by (simp add: below_def)

lemma set_below [simp]: "set (below lo hi) = {i. lo \<le> i \<and> i < hi}"
  by (auto simp: below_def)

text \<open>
  A loop whose body writes \<open>g i\<close> at index \<open>i\<close> of its state, run from \<open>k\<close> up to the
  length \<open>n\<close> of the state: the first \<open>k\<close> entries stay, the others become \<open>g k, \<dots>, g (n - 1)\<close>.
\<close>

lemma forE_update_from:
  assumes "\<And>i st. 0 \<le> i \<Longrightarrow> i < n \<Longrightarrow> len st = n \<Longrightarrow> body i st = Inr (st[nat i := g i])"
    and "len fs = n" and "0 \<le> k" and "k \<le> n"
  shows "forE (below k n) body fs = Inr (take (nat k) fs @ map g (below k n))"
  using assms(2-)
proof (induction "nat (n - k)" arbitrary: k fs)
  case 0
  then show ?case by (simp add: len_def)
next
  case (Suc m)
  then have kn: "k < n" by linarith
  have st: "body k fs = Inr (fs[nat k := g k])"
    using Suc.prems kn assms(1) by simp
  have IH: "forE (below (k + 1) n) body (fs[nat k := g k])
       = Inr (take (nat (k + 1)) (fs[nat k := g k]) @ map g (below (k + 1) n))"
    using Suc.hyps(2) Suc.prems kn
    by (intro Suc.hyps(1)) (auto simp: len_def)
  have "take (nat (k + 1)) (fs[nat k := g k]) = take (nat k) fs @ [g k]"
    using Suc.prems kn
    by (simp add: nat_add_distrib take_Suc_conv_app_nth len_def)
  then show ?case
    using IH st kn by (simp add: below_step)
qed

lemma forE_store_all:
  assumes "\<And>i. 0 \<le> i \<Longrightarrow> i < n \<Longrightarrow> f i = Inr (g i)" and "len fs = n"
  shows "forE (below 0 n) (\<lambda>i st. bindE (f i) (\<lambda>x. store st i x)) fs = Inr (map g (below 0 n))"
proof -
  have "0 \<le> n" using assms(2) by (simp add: len_def)
  then have "forE (below 0 n) (\<lambda>i st. bindE (f i) (\<lambda>x. store st i x)) fs
               = Inr (take (nat 0) fs @ map g (below 0 n))"
    using assms by (intro forE_update_from) (simp_all add: store_def)
  then show ?thesis by simp
qed

lemma go_quot_nonneg: "0 \<le> a \<Longrightarrow> 0 < b \<Longrightarrow> go_quot a b = Inr (a div b)"
  by (cases "a = 0") (simp_all add: go_quot_def tquot_def)

lemma copy_full: "length src = length dst \<Longrightarrow> copy dst src = src"
  by (simp add: copy_def)

lemma segmentFrame_inside:
  assumes "0 \<le> i" "0 \<le> HopSize p" "0 \<le> FrameSize p"
    and "i * HopSize p + FrameSize p \<le> len (Samples d)"
  shows "segmentFrame p d i
           = Inr (take (nat (FrameSize p)) (drop (nat (i * HopSize p)) (Samples d)))"
proof -
  define s where "s = i * HopSize p"
  have s0: "0 \<le> s" using assms by (simp add: s_def)
  have e: "s + FrameSize p \<le> len (Samples d)" using assms by (simp add: s_def)
  have l: "length (take (nat (FrameSize p)) (drop (nat s) (Samples d))) = nat (FrameSize p)"
    using assms(3) s0 e by (simp add: len_def)
  show ?thesis
    using assms(3) s0 e l
    by (simp add: segmentFrame_def Let_def go_make_def slice_def copy_full s_def [symmetric])
qed

lemma frame_inside:
  assumes "0 < H" and "W \<le> N" and "0 \<le> i" and "i < 1 + (N - W) div H"
  shows "i * H + W \<le> (N::int)"
proof -
  define q where "q = (N - W) div H"
  have "0 \<le> (N - W) mod H" using assms(1) by simp
  moreover have "(N - W) - (N - W) mod H = q * H"
    by (simp add: q_def minus_mod_eq_div_mult)
  ultimately have qH: "q * H \<le> N - W" by linarith
  have "i * H \<le> q * H" using assms by (simp add: mult_right_mono q_def)
  then show ?thesis using qH by linarith
qed

text \<open>
  What \<open>SegmentIntoFrames\<close> returns on a buffer that is long enough: frame \<open>i\<close> is the
  window of \<open>FrameSize\<close> samples that starts at sample \<open>i * HopSize\<close>.
\<close>

lemma SegmentIntoFrames_run:
  assumes "0 < HopSize p" and "0 \<le> FrameSize p" and "FrameSize p \<le> len (Samples d)"
  shows "SegmentIntoFrames p d
           = Inr (map (\<lambda>i. take (nat (FrameSize p)) (drop (nat (i * HopSize p)) (Samples d)))
                      (below 0 (1 + (len (Samples d) - FrameSize p) div HopSize p)))"
proof -
  define q where "q = (len (Samples d) - FrameSize p) div HopSize p"
  define g where "g = (\<lambda>i. take (nat (FrameSize p)) (drop (nat (i * HopSize p)) (Samples d)))"
  have q0: "0 \<le> q" using assms by (simp add: q_def pos_imp_zdiv_nonneg_iff)
  have fr: "segmentFrame p d i = Inr (g i)" if "0 \<le> i" "i < 1 + q" for i
    using segmentFrame_inside [of i p d] frame_inside [OF assms(1,3) that(1)] that assms
    by (simp add: g_def q_def)
  have fill: "forE (below 0 (1 + q))
                (\<lambda>i fs. bindE (segmentFrame p d i) (\<lambda>frame. store fs i frame))
                (replicate (nat (1 + q)) [])
              = Inr (map g (below 0 (1 + q)))"
    using fr q0 by (intro forE_store_all) (simp_all add: len_def)
  have quot: "go_quot (len (Samples d) - FrameSize p) (HopSize p) = Inr q"
    using assms go_quot_nonneg [of "len (Samples d) - FrameSize p" "HopSize p"]
    by (simp add: q_def)
  show ?thesis
    using assms quot fill q0
    by (simp add: SegmentIntoFrames_def Let_def go_make_def g_def q_def)
qed

text \<open>
  With a hop size of zero the frame count \<open>1 + (N - W) / H\<close> is an integer division by
  zero: on a buffer that is long enough the call panics instead of returning.
\<close>

lemma SegmentIntoFrames_zero_hop:
  assumes "HopSize p = 0" and "FrameSize p \<le> len (Samples d)"
  shows "SegmentIntoFrames p d = Inl PanicDivideByZero"
  using assms by (simp add: SegmentIntoFrames_def go_quot_def)

text \<open>
  Claim C6, for a positive hop size \<open>H\<close> and a non-negative frame size \<open>W\<close>.
  \<open>SegmentIntoFrames\<close> fails exactly when the buffer has fewer than \<open>W\<close> samples, and the
  failure is the error "too short" that it returns. Otherwise it returns
  \<open>\<lfloor>1 + (N - W) / H\<rfloor>\<close> frames of \<open>W\<close> samples each; frame \<open>i\<close> starts at sample \<open>i * H\<close> and
  ends inside the buffer, so that sample \<open>j\<close> of frame \<open>i\<close> is sample \<open>i * H + j\<close> of the buffer
  and the zero padding of the source never fills anything.
\<close>

theorem C6_segment:
  assumes "0 < HopSize p" and "0 \<le> FrameSize p"
  shows "((\<exists>e. SegmentIntoFrames p d = Inl e) \<longleftrightarrow> len (Samples d) < FrameSize p)
     \<and> (len (Samples d) < FrameSize p \<longrightarrow>
          SegmentIntoFrames p d = Inl (ErrTooShort (FrameSize p)))
     \<and> (FrameSize p \<le> len (Samples d) \<longrightarrow>
          (\<exists>frames. SegmentIntoFrames p d = Inr frames
             \<and> len frames
                 = \<lfloor>1 + real_of_int (len (Samples d) - FrameSize p) / real_of_int (HopSize p)\<rfloor>
             \<and> (\<forall>i. 0 \<le> i \<and> i < len frames \<longrightarrow>
                   len (frames ! nat i) = FrameSize p
                   \<and> i * HopSize p + FrameSize p \<le> len (Samples d)
                   \<and> (\<forall>j. 0 \<le> j \<and> j < FrameSize p \<longrightarrow>
                         frames ! nat i ! nat j
                           = (if i * HopSize p + j < len (Samples d)
                              then Samples d ! nat (i * HopSize p + j) else 0)))))"
proof (cases "len (Samples d) < FrameSize p")
  case True
  then show ?thesis by (simp add: SegmentIntoFrames_def)
next
  case False
  define N where "N = len (Samples d)"
  define W where "W = FrameSize p"
  define H where "H = HopSize p"
  define q where "q = (N - W) div H"
  define g where "g = (\<lambda>i. take (nat W) (drop (nat (i * H)) (Samples d)))"
  have NW: "W \<le> N" and H: "0 < H" and W: "0 \<le> W"
    using False assms by (simp_all add: N_def W_def H_def)
  have q0: "0 \<le> q" using NW H by (simp add: q_def pos_imp_zdiv_nonneg_iff)
  have inside: "i * H + W \<le> N" if "0 \<le> i" "i < 1 + q" for i
    using frame_inside [OF H NW that(1)] that(2) by (simp add: q_def)
  have run: "SegmentIntoFrames p d = Inr (map g (below 0 (1 + q)))"
    using SegmentIntoFrames_run [of p d] NW H W
    by (simp add: g_def q_def N_def W_def H_def)
  have cnt: "len (map g (below 0 (1 + q))) = \<lfloor>1 + real_of_int (N - W) / real_of_int H\<rfloor>"
  proof -
    have "\<lfloor>real_of_int (N - W) / real_of_int H\<rfloor> = q"
      unfolding q_def by (rule floor_divide_of_int_eq)
    then have "\<lfloor>1 + real_of_int (N - W) / real_of_int H\<rfloor> = 1 + q"
      by linarith
    then show ?thesis using q0 by (simp add: len_def)
  qed
  have each: "len (map g (below 0 (1 + q)) ! nat i) = W
       \<and> i * H + W \<le> N
       \<and> (\<forall>j. 0 \<le> j \<and> j < W \<longrightarrow>
              map g (below 0 (1 + q)) ! nat i ! nat j
                = (if i * H + j < N then Samples d ! nat (i * H + j) else 0))"
    if "0 \<le> i" "i < len (map g (below 0 (1 + q)))" for i
  proof -
    have i: "i < 1 + q" using that q0 by (simp add: len_def)
    have nth: "map g (below 0 (1 + q)) ! nat i = g i"
      using that i nth_below [of i 0 "1 + q"] by simp
    have iH: "0 \<le> i * H" using that H by simp
    have in': "i * H + W \<le> N" using inside that i by simp
    have "len (g i) = W"
      using in' iH W by (simp add: g_def len_def N_def)
    moreover have "g i ! nat j = Samples d ! nat (i * H + j)" if "0 \<le> j" "j < W" for j
    proof -
      have "nat (i * H) \<le> length (Samples d)"
        using in' iH W by (simp add: N_def len_def)
      then show ?thesis
        using that iH by (simp add: g_def nat_add_distrib)
    qed
    ultimately show ?thesis using nth in' by auto
  qed
  show ?thesis
    using False run cnt each
    unfolding N_def W_def H_def by (simp del: length_map)
qed

lemma SegmentIntoFrames_example: "SegmentIntoFrames segP segD = Inr [[1,2],[2,3]]"
  by (simp add: SegmentIntoFrames_def segP_def segD_def len_def go_quot_def tquot_def go_make_def
      below_def upto_rec1 segmentFrame_def slice_def copy_def store_def Let_def
      eval_nat_numeral)

theorem C6_segment_witness:
  "0 < HopSize segP \<and> 0 \<le> FrameSize segP \<and> FrameSize segP \<le> len (Samples segD)
   \<and> (\<exists>frames. SegmentIntoFrames segP segD = Inr frames \<and> len frames = 2
         \<and> len (frames ! 1) = 2 \<and> frames ! 1 ! 0 = 2 \<and> frames ! 1 ! 1 = 3)"
proof -
  have h: "0 < HopSize segP" "0 \<le> FrameSize segP" "FrameSize segP \<le> len (Samples segD)"
    by (simp_all add: segP_def segD_def len_def)
  from C6_segment [OF h(1,2), of segD] h(3)
  obtain frames where f: "SegmentIntoFrames segP segD = Inr frames"
    "len frames = \<lfloor>1 + real_of_int (len (Samples segD) - FrameSize segP) / real_of_int (HopSize segP)\<rfloor>"
    "\<forall>i. 0 \<le> i \<and> i < len frames \<longrightarrow>
         len (frames ! nat i) = FrameSize segP
         \<and> i * HopSize segP + FrameSize segP \<le> len (Samples segD)
         \<and> (\<forall>j. 0 \<le> j \<and> j < FrameSize segP \<longrightarrow>
               frames ! nat i ! nat j
                 = (if i * HopSize segP + j < len (Samples segD)
                    then Samples segD ! nat (i * HopSize segP + j) else 0))"
    by blast
  have n: "len frames = 2" using f(2) by (simp add: segP_def segD_def len_def)
  from spec [OF f(3), of 1] n have r: "len (frames ! nat 1) = FrameSize segP
         \<and> 1 * HopSize segP + FrameSize segP \<le> len (Samples segD)
         \<and> (\<forall>j. 0 \<le> j \<and> j < FrameSize segP \<longrightarrow>
               frames ! nat 1 ! nat j
                 = (if 1 * HopSize segP + j < len (Samples segD)
                    then Samples segD ! nat (1 * HopSize segP + j) else 0))"
    by simp
  then have "len (frames ! 1) = 2" by (simp add: segP_def)
  moreover from r have a: "\<forall>j. 0 \<le> j \<and> j < 2 \<longrightarrow>
      frames ! 1 ! nat j = (if 1 + j < 3 then [1, 2, 3 :: real] ! nat (1 + j) else 0)"
    by (simp add: segP_def segD_def len_def)
  from spec [OF a, of 0] have "frames ! 1 ! 0 = 2" by simp
  moreover from spec [OF a, of 1] have "frames ! 1 ! 1 = 3" by simp
  ultimately show ?thesis using h f(1) n by simp
qed

text \<open>
  Claim C6 as first stated has no condition on the hop size: the call would fail only on
  a buffer shorter than one frame. With a hop size of zero it fails on a buffer of three
  samples and a frame size of two, by the division by zero.
\<close>

theorem C6_zero_hop_counterexample:
  "HopSize hopZero = 0
   \<and> FrameSize hopZero \<le> len (Samples segD)
   \<and> SegmentIntoFrames hopZero segD = Inl PanicDivideByZero"
  by (simp add: SegmentIntoFrames_def go_quot_def hopZero_def segD_def len_def)

section \<open>Properties: ComputeSpectrogram\<close>

lemma tquot_nonneg: "0 \<le> a \<Longrightarrow> 0 < b \<Longrightarrow> tquot a b = a div b"
  by (cases "a = 0") (simp_all add: tquot_def)

lemma ComputePowerSpectrum_run:
  assumes "0 < len x"
  shows "ComputePowerSpectrum s x
           = Inr (map (\<lambda>i. (cmod (x ! nat i)) ^ 2) (below 0 (len x div 2 + 1)))"
proof -
  define n where "n = len x div 2 + 1"
  have n: "0 \<le> n" "n \<le> len x" using assms by (simp_all add: n_def) 
  have "forE (below 0 n) (\<lambda>i sp. bindE (index x i) (\<lambda>c. store sp i ((cmod c) ^ 2)))
          (replicate (nat n) 0)
        = Inr (take (nat 0) (replicate (nat n) 0) @ map (\<lambda>i. (cmod (x ! nat i)) ^ 2) (below 0 n))"
    using n by (intro forE_update_from) (simp_all add: index_def store_def len_def)
  then show ?thesis
    using assms n
    by (simp add: ComputePowerSpectrum_def Let_def tquot_nonneg n_def [symmetric] go_make_def)
qed

lemma ApplyWindow_length:
  assumes "len frame = WindowSize s"
  shows "\<exists>w. ApplyWindow s frame = Inr w \<and> length w = length frame"
proof -
  have "nat (WindowSize s) = length frame" using assms by (simp add: len_def flip: assms)
  then show ?thesis using assms by (simp add: ApplyWindow_def copy_def len_def)
qed

lemma length_FFT [simp]: "length (FFT x) = length x"
  by (simp add: FFT_def)

lemma length_ComputeFFT [simp]: "length (ComputeFFT s w) = length w"
  by (simp add: ComputeFFT_def)

lemma length_ApplyLogScale [simp]: "length (ApplyLogScale s x) = length x"
  by (simp add: ApplyLogScale_def)

lemma length_NormalizeSpectrum [simp]: "length (NormalizeSpectrum s x) = length x"
  by (simp add: NormalizeSpectrum_def Let_def)

lemma processFrame_length:
  assumes "len frame = WindowSize s" and "0 < WindowSize s"
  shows "\<exists>r. processFrame s frame = Inr r \<and> len r = WindowSize s div 2 + 1"
proof -
  obtain w where w: "ApplyWindow s frame = Inr w" "length w = length frame"
    using ApplyWindow_length [OF assms(1)] by blast
  have l: "len (ComputeFFT s w) = WindowSize s" using w assms by (simp add: len_def)
  show ?thesis
    using w l assms(2) ComputePowerSpectrum_run [of "ComputeFFT s w" s]
    by (simp add: processFrame_def Let_def len_def)
qed


lemma ComputeSpectrogram_run:
  fixes s0 :: SpectralAnalyzerImpl
  assumes "Channels data = 1" and "0 < W" and "0 < H" and "W \<le> len (Samples data)"
    and "s = s0\<lparr>WindowSize := W, AnalyzerHopSize := H, AnalyzerSampleRate := SampleRate data\<rparr>"
    and "n = 1 + (len (Samples data) - W) div H"
    and "\<And>i. 0 \<le> i \<Longrightarrow> i < n \<Longrightarrow>
            processFrame s (take (nat W) (drop (nat (i * H)) (Samples data))) = Inr (P i)"
  shows "ComputeSpectrogram s0 data W H
           = (s, Inr \<lparr>Data = map P (below 0 n),
                      FreqBins = W div 2 + 1,
                      TimeBins = n,
                      TimePoints = map (\<lambda>i. real_of_int (i * H) / real_of_int (SampleRate data))
                                       (below 0 n),
                      FreqPoints = map (\<lambda>i. real_of_int i * real_of_int (SampleRate data)
                                               / real_of_int W)
                                       (below 0 (W div 2 + 1))\<rparr>)"
proof -
  define processor where
    "processor = NewPCMProcessor\<lparr>FrameSize := WindowSize s, HopSize := AnalyzerHopSize s\<rparr>"
  define frames where
    "frames = map (\<lambda>i. take (nat W) (drop (nat (i * H)) (Samples data))) (below 0 n)"
  have fs: "FrameSize processor = W" "HopSize processor = H"
    by (simp_all add: processor_def assms(5))
  have n0: "0 \<le> n" using assms by (simp add: pos_imp_zdiv_nonneg_iff)
  have seg: "SegmentIntoFrames processor data = Inr frames"
    using SegmentIntoFrames_run [of processor data] assms(2-4) fs
    by (simp add: frames_def assms(6))
  have lf: "len frames = n" using n0 by (simp add: frames_def len_def)
  have nth: "frames ! nat i = take (nat W) (drop (nat (i * H)) (Samples data))"
    if "0 \<le> i" "i < n" for i
    using that nth_below [of i 0 n] by (simp add: frames_def)
  have fill: "forE (below 0 n)
                (\<lambda>i sd. bindE (processFrame s (frames ! nat i))
                           (\<lambda>powerSpectrum. store sd i powerSpectrum))
                (replicate (nat n) [])
              = Inr (map P (below 0 n))"
    using assms(7) nth n0 by (intro forE_store_all) (simp_all add: len_def)
  have sW: "WindowSize s = W" "AnalyzerHopSize s = H" "AnalyzerSampleRate s = SampleRate data"
    by (simp_all add: assms(5))
  have nb: "tquot W 2 + 1 = W div 2 + 1" "0 \<le> W div 2 + 1"
    using assms(2) by (simp_all add: tquot_nonneg)
  show ?thesis
    using assms(1-3) seg lf fill n0 nb
    unfolding ComputeSpectrogram_def Let_def processor_def assms(5)
    by (simp add: go_make_def)
qed

text \<open>
  Claim C4. For mono audio with \<open>N \<ge> W\<close> samples and positive \<open>W\<close> and \<open>H\<close>,
  \<open>ComputeSpectrogram(data, W, H)\<close> returns a spectrogram with
  \<open>TimeBins = \<lfloor>1 + (N - W) / H\<rfloor>\<close> and \<open>FreqBins = W div 2 + 1\<close>; \<open>TimePoints\<close> and \<open>Data\<close>
  have \<open>TimeBins\<close> entries, \<open>FreqPoints\<close> and every row of \<open>Data\<close> have \<open>FreqBins\<close>
  entries, \<open>TimePoints[t] = t * H / sample_rate\<close> and \<open>FreqPoints[k] = k * sample_rate / W\<close>.
\<close>

theorem C4_dimensions:
  assumes "Channels data = 1" and "0 < W" and "0 < H" and "W \<le> len (Samples data)"
  shows "\<exists>sg. snd (ComputeSpectrogram s0 data W H) = Inr sg
     \<and> TimeBins sg = \<lfloor>1 + real_of_int (len (Samples data) - W) / real_of_int H\<rfloor>
     \<and> FreqBins sg = W div 2 + 1
     \<and> len (TimePoints sg) = TimeBins sg
     \<and> len (FreqPoints sg) = FreqBins sg
     \<and> len (Data sg) = TimeBins sg
     \<and> (\<forall>t. 0 \<le> t \<and> t < TimeBins sg \<longrightarrow>
            len (Data sg ! nat t) = FreqBins sg
            \<and> TimePoints sg ! nat t
                = real_of_int (t * H) / real_of_int (SampleRate data))
     \<and> (\<forall>k. 0 \<le> k \<and> k < FreqBins sg \<longrightarrow>
            FreqPoints sg ! nat k
              = real_of_int k * real_of_int (SampleRate data) / real_of_int W)"
proof -
  define s where
    "s = s0\<lparr>WindowSize := W, AnalyzerHopSize := H, AnalyzerSampleRate := SampleRate data\<rparr>"
  define n where "n = 1 + (len (Samples data) - W) div H"
  define fr where "fr = (\<lambda>i. take (nat W) (drop (nat (i * H)) (Samples data)))"
  define P where "P = (\<lambda>i. projr (processFrame s (fr i)))"
  have sW: "WindowSize s = W" by (simp add: s_def)
  have n0: "0 \<le> n" using assms by (simp add: n_def pos_imp_zdiv_nonneg_iff)
  have frl: "len (fr i) = W" if "0 \<le> i" "i < n" for i
  proof -
    have "i * H + W \<le> len (Samples data)"
      using frame_inside [OF assms(3,4) that(1)] that(2) by (simp add: n_def)
    moreover have "0 \<le> i * H" using that assms(3) by simp
    ultimately show ?thesis using assms(2) by (simp add: fr_def len_def)
  qed
  have pf: "processFrame s (fr i) = Inr (P i) \<and> len (P i) = W div 2 + 1"
    if "0 \<le> i" "i < n" for i
    using processFrame_length [of "fr i" s] frl [OF that] assms(2) sW
    by (auto simp: P_def)
  have run: "snd (ComputeSpectrogram s0 data W H)
        = Inr \<lparr>Data = map P (below 0 n), FreqBins = W div 2 + 1, TimeBins = n,
                TimePoints = map (\<lambda>i. real_of_int (i * H) / real_of_int (SampleRate data))
                                 (below 0 n),
                FreqPoints = map (\<lambda>i. real_of_int i * real_of_int (SampleRate data)
                                         / real_of_int W)
                                 (below 0 (W div 2 + 1))\<rparr>"
    using ComputeSpectrogram_run [OF assms s_def n_def, of P] pf
    by (simp add: fr_def)
  have cnt: "n = \<lfloor>1 + real_of_int (len (Samples data) - W) / real_of_int H\<rfloor>"
  proof -
    have "\<lfloor>real_of_int (len (Samples data) - W) / real_of_int H\<rfloor>
            = (len (Samples data) - W) div H"
      by (rule floor_divide_of_int_eq)
    then show ?thesis unfolding n_def by linarith
  qed
  have b0: "0 \<le> W div 2 + 1" using assms(2) by simp
  have rows: "len (map P (below 0 n) ! nat t) = W div 2 + 1" if "0 \<le> t" "t < n" for t
    using that pf [OF that] nth_below [of t 0 n] by simp
  have tp: "map (\<lambda>i. real_of_int (i * H) / real_of_int (SampleRate data)) (below 0 n) ! nat t
              = real_of_int (t * H) / real_of_int (SampleRate data)"
    if "0 \<le> t" "t < n" for t
    using that nth_below [of t 0 n] by simp
  have fp: "map (\<lambda>i. real_of_int i * real_of_int (SampleRate data) / real_of_int W)
                (below 0 (W div 2 + 1)) ! nat k
              = real_of_int k * real_of_int (SampleRate data) / real_of_int W"
    if "0 \<le> k" "k < W div 2 + 1" for k
    using that nth_below [of k 0 "W div 2 + 1"] by simp
  have ls: "len (map P (below 0 n)) = n"
    "len (map (\<lambda>i. real_of_int (i * H) / real_of_int (SampleRate data)) (below 0 n)) = n"
    "len (map (\<lambda>i. real_of_int i * real_of_int (SampleRate data) / real_of_int W)
              (below 0 (W div 2 + 1))) = W div 2 + 1"
    using n0 b0 by (simp_all add: len_def)
  show ?thesis
    unfolding run using cnt [symmetric] ls rows tp fp
    by (simp del: length_map nth_map of_int_mult)
qed


theorem C4_dimensions_witness:
  "Channels segD = 1 \<and> (0::int) < 2 \<and> (0::int) < 1 \<and> 2 \<le> len (Samples segD)
   \<and> (\<exists>sg. snd (ComputeSpectrogram NewSpectralAnalyzer segD 2 1) = Inr sg
         \<and> TimeBins sg = 2 \<and> FreqBins sg = 2
         \<and> len (TimePoints sg) = 2 \<and> len (FreqPoints sg) = 2
         \<and> TimePoints sg ! 1 = 1 / 8000 \<and> FreqPoints sg ! 1 = 4000)"
proof -
  have h: "Channels segD = 1" "(0::int) < 2" "(0::int) < 1" "2 \<le> len (Samples segD)"
    by (simp_all add: segD_def len_def)
  from C4_dimensions [OF h, of NewSpectralAnalyzer]
  obtain sg where sg: "snd (ComputeSpectrogram NewSpectralAnalyzer segD 2 1) = Inr sg"
    "TimeBins sg = \<lfloor>1 + real_of_int (len (Samples segD) - 2) / real_of_int 1\<rfloor>"
    "FreqBins sg = 2 div 2 + 1"
    "len (TimePoints sg) = TimeBins sg" "len (FreqPoints sg) = FreqBins sg"
    "\<forall>t. 0 \<le> t \<and> t < TimeBins sg \<longrightarrow>
            len (Data sg ! nat t) = FreqBins sg
            \<and> TimePoints sg ! nat t = real_of_int (t * 1) / real_of_int (SampleRate segD)"
    "\<forall>k. 0 \<le> k \<and> k < FreqBins sg \<longrightarrow>
            FreqPoints sg ! nat k
              = real_of_int k * real_of_int (SampleRate segD) / real_of_int 2"
    by blast
  have t: "TimeBins sg = 2" using sg(2) by (simp add: segD_def len_def)
  have f: "FreqBins sg = 2" using sg(3) by simp
  from spec [OF sg(6), of 1] t have "TimePoints sg ! 1 = 1 / 8000" by (simp add: segD_def)
  moreover from spec [OF sg(7), of 1] f have "FreqPoints sg ! 1 = 4000" by (simp add: segD_def)
  ultimately show ?thesis using h sg(1,4,5) t f by simp
qed

text \<open>
  Claim C9, as amended. A call of \<open>ComputeSpectrogram\<close> assigns to its receiver: with
  \<open>windowSize > 0\<close> the field \<open>WindowSize\<close> afterwards is \<open>windowSize\<close>, with \<open>hopSize > 0\<close>
  the field \<open>HopSize\<close> afterwards is \<open>hopSize\<close>, and for mono input the field
  \<open>SampleRate\<close> afterwards is the sample rate of the buffer. For input that is not mono
  the call returns its error before that assignment and \<open>SampleRate\<close> keeps its value.
\<close>

theorem C9_receiver_after_call:
  "(0 < windowSize \<longrightarrow> WindowSize (fst (ComputeSpectrogram s data windowSize hopSize)) = windowSize)
   \<and> (0 < hopSize \<longrightarrow>
        AnalyzerHopSize (fst (ComputeSpectrogram s data windowSize hopSize)) = hopSize)
   \<and> (Channels data = 1 \<longrightarrow>
        AnalyzerSampleRate (fst (ComputeSpectrogram s data windowSize hopSize)) = SampleRate data)
   \<and> (Channels data \<noteq> 1 \<longrightarrow>
        snd (ComputeSpectrogram s data windowSize hopSize)
          = Inl (ErrRequiresMono (Channels data))
        \<and> AnalyzerSampleRate (fst (ComputeSpectrogram s data windowSize hopSize))
            = AnalyzerSampleRate s)"
  by (simp add: ComputeSpectrogram_def Let_def)

theorem C9_receiver_after_call_witness:
  "(0::int) < 2 \<and> (0::int) < 1 \<and> Channels segD = 1 
   \<and> WindowSize NewSpectralAnalyzer = 1024
   \<and> WindowSize (fst (ComputeSpectrogram NewSpectralAnalyzer segD 2 1)) = 2
   \<and> AnalyzerHopSize NewSpectralAnalyzer = 512
   \<and> AnalyzerHopSize (fst (ComputeSpectrogram NewSpectralAnalyzer segD 2 1)) = 1
   \<and> AnalyzerSampleRate NewSpectralAnalyzer = 44100
   \<and> AnalyzerSampleRate (fst (ComputeSpectrogram NewSpectralAnalyzer segD 2 1)) = 8000"
  using C9_receiver_after_call [of 2 NewSpectralAnalyzer segD 1]
  by (simp add: segD_def NewSpectralAnalyzer_def)

text \<open>
  Claim C9 as first stated also has \<open>SampleRate\<close> set from the buffer on every call. On a
  stereo buffer at 48000 Hz the default analyzer keeps its 44100 Hz.
\<close>

theorem C9_stereo_counterexample:
  "0 < (2048::int)
   \<and> AnalyzerSampleRate (fst (ComputeSpectrogram NewSpectralAnalyzer stereo48k 2048 256)) = 44100
   \<and> SampleRate stereo48k = 48000
   \<and> snd (ComputeSpectrogram NewSpectralAnalyzer stereo48k 2048 256) = Inl (ErrRequiresMono 2)"
  by (simp add: ComputeSpectrogram_def Let_def stereo48k_def NewSpectralAnalyzer_def)

section \<open>Properties: the spectrogram of silence\<close>

lemma map_below_zero:
  assumes "\<And>i. 0 \<le> i \<Longrightarrow> i < int n \<Longrightarrow> f i = z"
  shows "map f (below 0 (int n)) = replicate n z"
  using assms by (simp add: list_eq_iff_nth_eq below_def)

lemma ApplyWindow_zeros:
  assumes "WindowSize s = int n"
  shows "ApplyWindow s (replicate n 0) = Inr (replicate n 0)"
proof -
  have "map (\<lambda>i. replicate n 0 ! nat i * c i) (below 0 (int n)) = replicate n (0::real)"
    for c :: "int \<Rightarrow> real"
    by (intro map_below_zero) simp
  then show ?thesis
    using assms by (simp add: ApplyWindow_def len_def copy_def)
qed

lemma FFT_zeros: "FFT (replicate n 0) = replicate n 0"
proof -
  have "(\<Sum>m\<leftarrow>[0..<n]. replicate n (0::complex) ! m * c m) = 0" for c :: "nat \<Rightarrow> complex"
  proof -
    have "(\<Sum>m\<leftarrow>[0..<n]. replicate n (0::complex) ! m * c m) = (\<Sum>m\<leftarrow>[0..<n]. 0)"
      by (intro arg_cong [where f = sum_list] map_cong) simp_all
    then show ?thesis by simp
  qed
  then show ?thesis by (simp add: FFT_def list_eq_iff_nth_eq)
qed

lemma ComputeFFT_zeros: "ComputeFFT s (replicate n 0) = replicate n 0"
  using FFT_zeros [of n] by (simp add: ComputeFFT_def zero_complex.code)

lemma ComputePowerSpectrum_zeros:
  assumes "0 < n" and "m = n div 2 + 1"
  shows "ComputePowerSpectrum s (replicate n 0) = Inr (replicate m 0)"
proof -
  have "map (\<lambda>i. (cmod (replicate n 0 ! nat i))\<^sup>2) (below 0 (int m)) = replicate m 0"
    using assms by (intro map_below_zero) auto
  moreover have "len (replicate n (0::complex)) div 2 + 1 = int m"
    using assms(2) by (simp add: zdiv_int len_def)
  moreover have "0 < len (replicate n (0::complex))" using assms(1) by (simp add: len_def)
  ultimately show ?thesis
    using ComputePowerSpectrum_run [of "replicate n 0" s] by (simp only:)
qed

lemma log_floor_value: "ln (0 + 1 / 10 ^ 10) / ln 10 = (- 10 :: real)"
proof -
  have "ln (1 / 10 ^ 10 :: real) = - (10 * ln 10)"
    using ln_realpow [of "10::real" 10] by (simp add: ln_div)
  then show ?thesis by simp
qed

lemma ApplyLogScale_zeros:
  assumes "LogScaleBase s = 10"
  shows "ApplyLogScale s (replicate m 0) = replicate m (- 10)"
  using assms log_floor_value by (simp add: ApplyLogScale_def)

lemma foldl_max_nonpos:
  "z \<le> 0 \<Longrightarrow> foldl (\<lambda>m val. if val > m then val else m) (0::real) (replicate k z) = 0"
  by (induction k) simp_all

lemma NormalizeSpectrum_negative:
  "NormalizeSpectrum s (replicate m (- 10)) = replicate m (- 10)"
  by (simp add: NormalizeSpectrum_def Let_def foldl_max_nonpos)

lemma processFrame_zeros:
  assumes "WindowSize s = int n" and "0 < n" and "LogScaleBase s = 10" and "NormalizeSpec s"
    and "m = n div 2 + 1"
  shows "processFrame s (replicate n 0) = Inr (replicate m (- 10))"
proof -
  have e: "LogScaleBase s > 1.0" using assms(3) by simp
  show ?thesis
    unfolding processFrame_def Let_def
    by (simp only: ApplyWindow_zeros [OF assms(1)] ComputeFFT_zeros bindE_Inr
        ComputePowerSpectrum_zeros [OF assms(2,5)] ApplyLogScale_zeros [OF assms(3)]
        NormalizeSpectrum_negative e assms(4) if_True)
qed

text \<open>
  Claim C1 says that every entry of a returned spectrogram is non-negative, also under
  the default configuration (\<open>LogScaleBase = 10\<close>, \<open>NormalizeSpec = true\<close>). On 1024
  samples of silence the default analyzer returns one frame of 513 bins, each
  \<open>log10 (0 + 1e-10) = - 10\<close>: \<open>NormalizeSpectrum\<close> starts its maximum at \<open>0.0\<close>, finds
  nothing larger and returns the logarithms as they are.
\<close>

theorem C1_silence_is_negative:
  "\<exists>sg. snd (ComputeSpectrogram NewSpectralAnalyzer silence 1024 512) = Inr sg
        \<and> TimeBins sg = 1 \<and> FreqBins sg = 513
        \<and> Data sg = [replicate 513 (- 10)]
        \<and> Data sg ! 0 ! 0 < 0"
proof -
  define s where "s = NewSpectralAnalyzer\<lparr>WindowSize := 1024, AnalyzerHopSize := 512,
      AnalyzerSampleRate := SampleRate silence\<rparr>"
  have cfg: "WindowSize s = int 1024" "LogScaleBase s = 10" "NormalizeSpec s"
    by (simp_all add: s_def NewSpectralAnalyzer_def)
  have n: "(1::int) = 1 + (len (Samples silence) - 1024) div 512"
    by (simp add: silence_def len_def)
  have fr: "processFrame s (take (nat 1024) (drop (nat (i * 512)) (Samples silence)))
              = Inr (replicate 513 (- 10))" if "0 \<le> i" "i < 1" for i
  proof -
    have "i = 0" using that by simp
    then have "take (nat 1024) (drop (nat (i * 512)) (Samples silence)) = replicate 1024 0"
      by (simp add: silence_def)
    then show ?thesis using processFrame_zeros [OF cfg(1) _ cfg(2,3), of 513] by simp
  qed
  have "snd (ComputeSpectrogram NewSpectralAnalyzer silence 1024 512)
      = Inr \<lparr>Data = map (\<lambda>i. replicate 513 (- 10)) (below 0 1),
              FreqBins = 1024 div 2 + 1, TimeBins = 1,
              TimePoints = map (\<lambda>i. real_of_int (i * 512) / real_of_int (SampleRate silence))
                               (below 0 1),
              FreqPoints = map (\<lambda>i. real_of_int i * real_of_int (SampleRate silence)
                                       / real_of_int 1024)
                               (below 0 (1024 div 2 + 1))\<rparr>"
    using ComputeSpectrogram_run [OF _ _ _ _ s_def n, where P = "\<lambda>i. replicate 513 (- 10)"] fr
    by (simp add: silence_def len_def)
  then show ?thesis by (simp add: below_def)
qed

section \<open>Properties: the frequency band of ExtractPeaks\<close>

lemma freqIndexRange_lowTone: "freqIndexRange fromZero lowTone = (1, 2)"
  by (simp add: freqIndexRange_def fromZero_def lowTone_def NewPeakExtractor_def len_def)

lemma spec_band_lowTone:
  "specLowBin (FreqPoints lowTone) (MinFrequency fromZero) = Some 0"
  "specHighBin (FreqPoints lowTone) (MaxFrequency fromZero) = Some 2"
  by (simp_all add: specLowBin_def specHighBin_def fromZero_def lowTone_def NewPeakExtractor_def
      len_def below_def upto_rec1)

lemma threshold_lowTone: "effectiveThreshold fromZero lowTone = 1 / 2"
  by (simp add: effectiveThreshold_def maxAmplitude_def fromZero_def lowTone_def
      NewPeakExtractor_def)

lemma isLocalMax_lowTone:
  "isLocalMax fromZero lowTone 0 1 1 = Inr False"
  "isLocalMax fromZero lowTone 0 2 1 = Inr False"
  "isLocalMax fromZero lowTone 0 0 5 = Inr True"
  by (simp_all add: isLocalMax_def fromZero_def lowTone_def NewPeakExtractor_def
      below_def upto_rec1 index2_def index_def len_def bindE_def)

text \<open>
  Claim C2 says that the band starts at the first bin whose frequency is at least
  \<open>MinFrequency\<close>, also when that bin is bin 0. The loop of the source uses
  \<open>minFreqIndex == 0\<close> for "not found yet": with \<open>MinFrequency = 0\<close> and bins at 0, 100 and
  200 Hz it sets the index to 0 at bin 0 and again, to 1, at bin 1. The band becomes
  \<open>[1, 2]\<close>, and the peak of amplitude 5 in bin 0, above the threshold and a local
  maximum, is not returned.
\<close>

theorem C2_bin_zero_skipped:
  "freqIndexRange fromZero lowTone = (1, 2)
   \<and> specLowBin (FreqPoints lowTone) (MinFrequency fromZero) = Some 0
   \<and> specHighBin (FreqPoints lowTone) (MaxFrequency fromZero) = Some 2
   \<and> index2 (Data lowTone) 0 0 = Inr 5
   \<and> effectiveThreshold fromZero lowTone = 1 / 2
   \<and> isLocalMax fromZero lowTone 0 0 5 = Inr True
   \<and> ExtractPeaks sortPeaks fromZero (Some lowTone) = Inr []"
proof -
  have rd: "index2 (Data lowTone) 0 1 = Inr 1" "index2 (Data lowTone) 0 2 = Inr 1"
    by (simp_all add: lowTone_def index2_def index_def len_def)
  have vb: "visitBin fromZero lowTone (1 / 2) 0 1 acc = Inr acc"
    "visitBin fromZero lowTone (1 / 2) 0 2 acc = Inr acc" for acc
    by (simp_all add: visitBin_def rd isLocalMax_lowTone)
  have "framePeaks fromZero lowTone (1 / 2) (1, 2) 0 = Inr []"
    by (simp add: framePeaks_def below_def upto_rec1 vb)
  then have vf: "visitFrame sortPeaks fromZero lowTone (1 / 2) (1, 2) 0 [] = Inr []"
    by (simp add: visitFrame_def len_def)
  have shape: "len (Data lowTone) = 1" "len (Data lowTone ! 0) = 3" "TimeBins lowTone = 1"
    by (simp_all add: lowTone_def len_def)
  have "ExtractPeaks sortPeaks fromZero (Some lowTone) = Inr []"
    by (simp add: ExtractPeaks_def freqIndexRange_lowTone threshold_lowTone shape
        below_def upto_rec1 vf)
  moreover have "index2 (Data lowTone) 0 0 = Inr 5"
    by (simp add: lowTone_def index2_def index_def len_def)
  ultimately show ?thesis
    using freqIndexRange_lowTone spec_band_lowTone threshold_lowTone isLocalMax_lowTone(3)
    by simp
qed

section \<open>Properties: the peaks of ExtractPeaks\<close>

lemma louder_not_quieter: "louder s a nt nf \<Longrightarrow> \<not> quieter s a nt nf"
  by (auto simp: louder_def quieter_def)

lemma scanDf_Inr:
  assumes "scanDf s t f a dt dfs = Inr b"
  shows "if b then (\<forall>df \<in> set dfs. (dt, df) \<noteq> (0, 0) \<longrightarrow> quieter s a (t + dt) (f + df))
         else (\<exists>df \<in> set dfs. (dt, df) \<noteq> (0, 0) \<and> louder s a (t + dt) (f + df))"
  using assms
proof (induction dfs)
  case Nil
  then show ?case by simp
next
  case (Cons df dfs)
  show ?case
  proof (cases "dt = 0 \<and> df = 0")
    case True
    then show ?thesis using Cons by (auto split: if_splits)
  next
    case False
    show ?thesis
    proof (cases "t + dt \<ge> 0 \<and> t + dt < TimeBins s \<and> f + df \<ge> 0 \<and> f + df < FreqBins s")
      case outside: False
      then have "scanDf s t f a dt dfs = Inr b"
        using Cons.prems False by (auto simp: Let_def)
      moreover have "quieter s a (t + dt) (f + df)"
        using outside by (auto simp: quieter_def)
      ultimately show ?thesis using Cons.IH by (auto split: if_splits)
    next
      case inside: True
      then obtain v where v: "index2 (Data s) (t + dt) (f + df) = Inr v"
        using Cons.prems False by (cases "index2 (Data s) (t + dt) (f + df)") (auto simp: Let_def)
      show ?thesis
      proof (cases "v > a")
        case True
        then have "b = False" using Cons.prems False inside v by (simp add: Let_def)
        moreover have "louder s a (t + dt) (f + df)"
          using inside v True by (auto simp: louder_def)
        ultimately show ?thesis using False by auto
      next
        case le: False
        then have "scanDf s t f a dt dfs = Inr b"
          using Cons.prems False inside v by (simp add: Let_def)
        moreover have "quieter s a (t + dt) (f + df)"
          using v le by (auto simp: quieter_def)
        ultimately show ?thesis using Cons.IH by (auto split: if_splits)
      qed
    qed
  qed
qed

lemma scanDt_Inr:
  assumes "scanDt s t f a dts dfs = Inr b"
  shows "if b then (\<forall>dt \<in> set dts. \<forall>df \<in> set dfs.
                      (dt, df) \<noteq> (0, 0) \<longrightarrow> quieter s a (t + dt) (f + df))
         else (\<exists>dt \<in> set dts. \<exists>df \<in> set dfs.
                 (dt, df) \<noteq> (0, 0) \<and> louder s a (t + dt) (f + df))"
  using assms
proof (induction dts)
  case Nil
  then show ?case by simp
next
  case (Cons dt dts)
  from Cons.prems obtain b1 where b1: "scanDf s t f a dt dfs = Inr b1"
    by (cases "scanDf s t f a dt dfs") auto
  note inner = scanDf_Inr [OF b1]
  show ?case
  proof (cases b1)
    case False
    then have "b = False" using Cons.prems b1 by simp
    then show ?thesis using inner False by auto
  next
    case True
    then have "scanDt s t f a dts dfs = Inr b" using Cons.prems b1 by simp
    then show ?thesis using Cons.IH inner True by (auto split: if_splits)
  qed
qed

text \<open>
  The test of the source, read off its result: \<open>isLocalMax\<close> is true when every cell of
  the window other than the centre is outside the bounds or holds a value that is not
  larger, and false when some cell inside the bounds holds a larger one.
\<close>

lemma isLocalMax_Inr:
  assumes "isLocalMax p s t f a = Inr b"
  shows "b \<longleftrightarrow> (\<forall>nt nf. \<bar>nt - t\<bar> \<le> NeighborhoodSize p \<and> \<bar>nf - f\<bar> \<le> NeighborhoodSize p
                     \<and> (nt, nf) \<noteq> (t, f) \<longrightarrow> quieter s a nt nf)"
    and "\<not> b \<longleftrightarrow> (\<exists>nt nf. \<bar>nt - t\<bar> \<le> NeighborhoodSize p \<and> \<bar>nf - f\<bar> \<le> NeighborhoodSize p
                     \<and> (nt, nf) \<noteq> (t, f) \<and> louder s a nt nf)"
proof -
  let ?D = "NeighborhoodSize p"
  let ?ds = "below (- ?D) (?D + 1)"
  have ds: "set ?ds = {d. \<bar>d\<bar> \<le> ?D}" by (auto simp: below_def)
  note r = scanDt_Inr [OF assms [unfolded isLocalMax_def]]
  have T: "(\<forall>nt nf. \<bar>nt - t\<bar> \<le> ?D \<and> \<bar>nf - f\<bar> \<le> ?D \<and> (nt, nf) \<noteq> (t, f) \<longrightarrow> quieter s a nt nf)"
    if b
  proof (intro allI impI)
    fix nt nf
    assume h: "\<bar>nt - t\<bar> \<le> ?D \<and> \<bar>nf - f\<bar> \<le> ?D \<and> (nt, nf) \<noteq> (t, f)"
    then have m: "nt - t \<in> set ?ds" "nf - f \<in> set ?ds" "(nt - t, nf - f) \<noteq> (0, 0)"
      unfolding ds by auto
    from r that have "\<forall>dt \<in> set ?ds. \<forall>df \<in> set ?ds.
        (dt, df) \<noteq> (0, 0) \<longrightarrow> quieter s a (t + dt) (f + df)"
      by simp
    with m have "quieter s a (t + (nt - t)) (f + (nf - f))" by blast
    then show "quieter s a nt nf" by simp
  qed
  have F: "\<exists>nt nf. \<bar>nt - t\<bar> \<le> ?D \<and> \<bar>nf - f\<bar> \<le> ?D \<and> (nt, nf) \<noteq> (t, f) \<and> louder s a nt nf"
    if "\<not> b"
  proof -
    from r that have "\<exists>dt \<in> set ?ds. \<exists>df \<in> set ?ds.
        (dt, df) \<noteq> (0, 0) \<and> louder s a (t + dt) (f + df)"
      by simp
    then obtain dt df where m: "dt \<in> set ?ds" "df \<in> set ?ds" "(dt, df) \<noteq> (0, 0)"
      "louder s a (t + dt) (f + df)" by blast
    from m(1-3) have "\<bar>(t + dt) - t\<bar> \<le> ?D" "\<bar>(f + df) - f\<bar> \<le> ?D" "(t + dt, f + df) \<noteq> (t, f)"
      unfolding ds by auto
    with m(4) show ?thesis by blast
  qed
  show "b \<longleftrightarrow> (\<forall>nt nf. \<bar>nt - t\<bar> \<le> ?D \<and> \<bar>nf - f\<bar> \<le> ?D \<and> (nt, nf) \<noteq> (t, f) \<longrightarrow> quieter s a nt nf)"
    using T F louder_not_quieter by blast
  show "\<not> b \<longleftrightarrow> (\<exists>nt nf. \<bar>nt - t\<bar> \<le> ?D \<and> \<bar>nf - f\<bar> \<le> ?D \<and> (nt, nf) \<noteq> (t, f) \<and> louder s a nt nf)"
    using T F louder_not_quieter by blast
qed


lemma visitBin_Inr:
  assumes "visitBin p s thr t f acc = Inr out"
  shows "\<exists>a. index2 (Data s) t f = Inr a
           \<and> (if a \<ge> thr
                then \<exists>b. isLocalMax p s t f a = Inr b
                       \<and> (if b then \<exists>pk. out = acc @ [pk] \<and> peakAt p s thr t f pk
                            else out = acc)
                else out = acc)"
proof -
  from assms obtain a where a: "index2 (Data s) t f = Inr a"
    by (cases "index2 (Data s) t f") (auto simp: visitBin_def)
  show ?thesis
  proof (cases "a \<ge> thr")
    case False
    then show ?thesis using assms a by (auto simp: visitBin_def)
  next
    case True
    with assms a obtain b where b: "isLocalMax p s t f a = Inr b"
      by (cases "isLocalMax p s t f a") (auto simp: visitBin_def)
    show ?thesis
    proof (cases b)
      case False
      then show ?thesis using assms a b True by (auto simp: visitBin_def)
    next
      case yes: True
      with assms a b True obtain time where tm: "index (TimePoints s) t = Inr time"
        by (cases "index (TimePoints s) t") (auto simp: visitBin_def)
      with assms a b True yes obtain freq where fq: "index (FreqPoints s) f = Inr freq"
        by (cases "index (FreqPoints s) f") (auto simp: visitBin_def)
      have "out = acc @ [\<lparr>TimeIndex = t, FreqIndex = f, Time = time, Frequency = freq,
                           Amplitude = a, IsLocalMaxima = True\<rparr>]"
        using assms a b True yes tm fq by (simp add: visitBin_def)
      moreover have "peakAt p s thr t f \<lparr>TimeIndex = t, FreqIndex = f, Time = time,
          Frequency = freq, Amplitude = a, IsLocalMaxima = True\<rparr>"
        using a b True yes tm fq by (simp add: peakAt_def)
      ultimately show ?thesis using a b True yes by auto
    qed
  qed
qed

lemma framePeaks_loop:
  assumes "forE fs (visitBin p s thr t) acc = Inr out"
  shows "\<exists>new. out = acc @ new
           \<and> (\<forall>pk \<in> set new. FreqIndex pk \<in> set fs \<and> peakAt p s thr t (FreqIndex pk) pk)
           \<and> (\<forall>f \<in> set fs. \<exists>a. index2 (Data s) t f = Inr a
                  \<and> (a \<ge> thr \<longrightarrow>
                        (\<exists>b. isLocalMax p s t f a = Inr b
                           \<and> (b \<longrightarrow> (\<exists>pk \<in> set new. FreqIndex pk = f)))))"
  using assms
proof (induction fs arbitrary: acc)
  case Nil
  then show ?case by simp
next
  case (Cons f fs)
  from Cons.prems obtain mid where mid: "visitBin p s thr t f acc = Inr mid"
    and rest: "forE fs (visitBin p s thr t) mid = Inr out"
    by (cases "visitBin p s thr t f acc") auto
  from visitBin_Inr [OF mid] obtain a where a: "index2 (Data s) t f = Inr a"
    and step: "if a \<ge> thr
                then \<exists>b. isLocalMax p s t f a = Inr b
                       \<and> (if b then \<exists>pk. mid = acc @ [pk] \<and> peakAt p s thr t f pk
                            else mid = acc)
                else mid = acc"
    by blast
  from Cons.IH [OF rest] obtain new where new: "out = mid @ new"
    "\<forall>pk \<in> set new. FreqIndex pk \<in> set fs \<and> peakAt p s thr t (FreqIndex pk) pk"
    "\<forall>f \<in> set fs. \<exists>a. index2 (Data s) t f = Inr a
                  \<and> (a \<ge> thr \<longrightarrow>
                        (\<exists>b. isLocalMax p s t f a = Inr b
                           \<and> (b \<longrightarrow> (\<exists>pk \<in> set new. FreqIndex pk = f))))"
    by blast
  consider (skip) "mid = acc" "a \<ge> thr \<longrightarrow> isLocalMax p s t f a = Inr False"
    | (add) pk where "mid = acc @ [pk]" "peakAt p s thr t f pk" "a \<ge> thr"
        "isLocalMax p s t f a = Inr True"
    using step by (auto split: if_splits)
  then show ?case
  proof cases
    case skip
    have "out = acc @ new" using new(1) skip(1) by simp
    moreover have "\<forall>pk \<in> set new. FreqIndex pk \<in> set (f # fs)
        \<and> peakAt p s thr t (FreqIndex pk) pk"
      using new(2) by auto
    moreover have "\<forall>g \<in> set (f # fs). \<exists>a. index2 (Data s) t g = Inr a
                  \<and> (a \<ge> thr \<longrightarrow>
                        (\<exists>b. isLocalMax p s t g a = Inr b
                           \<and> (b \<longrightarrow> (\<exists>pk \<in> set new. FreqIndex pk = g))))"
      using new(3) a skip(2) by auto
    ultimately show ?thesis by blast
  next
    case add
    have fi: "FreqIndex pk = f" using add(2) by (simp add: peakAt_def)
    have "out = acc @ (pk # new)" using new(1) add(1) by simp
    moreover have "\<forall>q \<in> set (pk # new). FreqIndex q \<in> set (f # fs)
        \<and> peakAt p s thr t (FreqIndex q) q"
      using new(2) add(2) fi by auto
    moreover have "\<forall>g \<in> set (f # fs). \<exists>a. index2 (Data s) t g = Inr a
                  \<and> (a \<ge> thr \<longrightarrow>
                        (\<exists>b. isLocalMax p s t g a = Inr b
                           \<and> (b \<longrightarrow> (\<exists>q \<in> set (pk # new). FreqIndex q = g))))"
    proof
      fix g assume "g \<in> set (f # fs)"
      then consider "g = f" | "g \<in> set fs" by auto
      then show "\<exists>a. index2 (Data s) t g = Inr a
                  \<and> (a \<ge> thr \<longrightarrow>
                        (\<exists>b. isLocalMax p s t g a = Inr b
                           \<and> (b \<longrightarrow> (\<exists>q \<in> set (pk # new). FreqIndex q = g))))"
      proof cases
        case 1
        then show ?thesis using a add(4) fi by auto
      next
        case 2
        with new(3) obtain a' where a': "index2 (Data s) t g = Inr a'"
          "a' \<ge> thr \<longrightarrow> (\<exists>b. isLocalMax p s t g a' = Inr b
                           \<and> (b \<longrightarrow> (\<exists>pk \<in> set new. FreqIndex pk = g)))"
          by blast
        then show ?thesis by auto
      qed
    qed
    ultimately show ?thesis by blast
  qed
qed

lemma contract_mset: "sortSliceContract srt \<Longrightarrow> mset (srt xs) = mset xs"
  by (simp add: sortSliceContract_def)

lemma contract_sorted:
  "sortSliceContract srt \<Longrightarrow> sorted_wrt (\<lambda>a b. Amplitude a \<ge> Amplitude b) (srt xs)"
proof -
  assume "sortSliceContract srt"
  then have "sorted_wrt (\<lambda>a b. \<not> Amplitude b > Amplitude a) (srt xs)"
    by (simp add: sortSliceContract_def)
  then show ?thesis by (rule sorted_wrt_mono_rel [rotated]) auto
qed

lemma contract_set: "sortSliceContract srt \<Longrightarrow> set (srt xs) = set xs"
  using contract_mset [of srt xs] by (metis set_mset_mset)

lemma contract_length: "sortSliceContract srt \<Longrightarrow> length (srt xs) = length xs"
  using contract_mset [of srt xs] by (metis size_mset)

lemma visitFrame_Inr:
  assumes "sortSliceContract srt" and "visitFrame srt p s thr band t acc = Inr out"
  shows "\<exists>cands. framePeaks p s thr band t = Inr cands
           \<and> out = acc @ take (nat (MaxPeaksPerFrame p)) (srt cands)
           \<and> (cands \<noteq> [] \<longrightarrow> 0 \<le> MaxPeaksPerFrame p)"
proof -
  from assms(2) obtain cands where c: "framePeaks p s thr band t = Inr cands"
    by (cases "framePeaks p s thr band t") (auto simp: visitFrame_def)
  note l = contract_length [OF assms(1), of cands]
  show ?thesis
  proof (cases "cands = []")
    case True
    then have "srt cands = []" using l by simp
    then show ?thesis using assms(2) c True by (simp add: visitFrame_def len_def)
  next
    case False
    then have pos: "len cands > 0" by (simp add: len_def)
    show ?thesis
    proof (cases "len (srt cands) > MaxPeaksPerFrame p")
      case True
      then have "slice (srt cands) 0 (MaxPeaksPerFrame p) = Inr (drop (length acc) out)"
        using assms(2) c pos
        by (cases "slice (srt cands) 0 (MaxPeaksPerFrame p)")
           (auto simp: visitFrame_def Let_def)
      then have "0 \<le> MaxPeaksPerFrame p"
        "drop (length acc) out = take (nat (MaxPeaksPerFrame p)) (srt cands)"
        by (auto simp: slice_def split: if_splits)
      moreover have "out = acc @ drop (length acc) out"
        using assms(2) c pos True
        by (cases "slice (srt cands) 0 (MaxPeaksPerFrame p)")
           (auto simp: visitFrame_def Let_def)
      ultimately show ?thesis using c by auto
    next
      case le: False
      then have "out = acc @ srt cands"
        using assms(2) c pos by (simp add: visitFrame_def Let_def)
      moreover have "take (nat (MaxPeaksPerFrame p)) (srt cands) = srt cands"
        using le by (simp add: len_def)
      moreover have "0 \<le> MaxPeaksPerFrame p" using le pos l by (simp add: len_def)
      ultimately show ?thesis using c by simp
    qed
  qed
qed

lemma forE_append:
  assumes "forE js body acc = Inr out"
    and "\<And>i a b. i \<in> set js \<Longrightarrow> body i a = Inr b \<Longrightarrow> b = a @ g i"
  shows "out = acc @ concat (map g js)"
  using assms
proof (induction js arbitrary: acc)
  case Nil
  then show ?case by simp
next
  case (Cons j js)
  from Cons.prems(1) obtain mid where mid: "body j acc = Inr mid"
    and rest: "forE js body mid = Inr out"
    by (cases "body j acc") auto
  have "mid = acc @ g j" using Cons.prems(2) [OF _ mid] by simp
  moreover have "out = mid @ concat (map g js)"
    using Cons.IH [OF rest] Cons.prems(2) by simp
  ultimately show ?case by simp
qed

lemma forE_step_ok:
  assumes "forE js body acc = Inr out" and "i \<in> set js"
  shows "\<exists>a b. body i a = Inr b"
  using assms
proof (induction js arbitrary: acc)
  case Nil
  then show ?case by simp
next
  case (Cons j js)
  from Cons.prems(1) obtain mid where mid: "body j acc = Inr mid"
    and rest: "forE js body mid = Inr out"
    by (cases "body j acc") auto
  show ?case
  proof (cases "i = j")
    case True
    then show ?thesis using mid by blast
  next
    case False
    then show ?thesis using Cons.IH [OF rest] Cons.prems(2) by simp
  qed
qed

text \<open>
  The shape of a successful run of \<open>ExtractPeaks\<close>: every frame has its list of
  candidates, and the result is the concatenation, frame by frame, of the first
  \<open>MaxPeaksPerFrame\<close> candidates after sorting.
\<close>

lemma ExtractPeaks_Inr:
  assumes "sortSliceContract srt" and "ExtractPeaks srt p (Some s) = Inr peaks"
  shows "\<exists>cands.
           (\<forall>t. 0 \<le> t \<and> t < TimeBins s \<longrightarrow>
              framePeaks p s (effectiveThreshold p s) (freqIndexRange p s) t = Inr (cands t)
              \<and> (cands t \<noteq> [] \<longrightarrow> 0 \<le> MaxPeaksPerFrame p))
           \<and> peaks = concat (map (\<lambda>t. take (nat (MaxPeaksPerFrame p)) (srt (cands t)))
                                  (below 0 (TimeBins s)))
           \<and> Data s \<noteq> [] \<and> Data s ! 0 \<noteq> []"
proof -
  let ?thr = "effectiveThreshold p s" and ?band = "freqIndexRange p s"
  define cands where "cands = (\<lambda>t. projr (framePeaks p s ?thr ?band t))"
  have shape: "Data s \<noteq> []" "Data s ! 0 \<noteq> []"
    using assms(2) by (auto simp: ExtractPeaks_def len_def split: if_splits)
  then have run: "forE (below 0 (TimeBins s)) (visitFrame srt p s ?thr ?band) [] = Inr peaks"
    using assms(2) by (simp add: ExtractPeaks_def len_def)
  have step: "b = a @ take (nat (MaxPeaksPerFrame p)) (srt (cands t))"
    if "visitFrame srt p s ?thr ?band t a = Inr b" for t a b
    using visitFrame_Inr [OF assms(1) that] by (auto simp: cands_def)
  have "peaks = [] @ concat (map (\<lambda>t. take (nat (MaxPeaksPerFrame p)) (srt (cands t)))
                                  (below 0 (TimeBins s)))"
    using run step by (intro forE_append [where body = "visitFrame srt p s ?thr ?band"]) auto
  moreover have "framePeaks p s ?thr ?band t = Inr (cands t)
      \<and> (cands t \<noteq> [] \<longrightarrow> 0 \<le> MaxPeaksPerFrame p)"
    if "0 \<le> t" "t < TimeBins s" for t
  proof -
    have "t \<in> set (below 0 (TimeBins s))" using that by simp
    from forE_step_ok [OF run this] obtain a b
      where "visitFrame srt p s ?thr ?band t a = Inr b" by blast
    from visitFrame_Inr [OF assms(1) this] show ?thesis by (auto simp: cands_def)
  qed
  ultimately show ?thesis using shape by auto
qed

lemma foldl_max_fold:
  "foldl (\<lambda>m v. if v > m then v else m) (a::real) xs = fold max xs a"
proof (induction xs arbitrary: a)
  case Nil
  then show ?case by simp
next
  case (Cons x xs)
  have "(if a < b then b else a) = max b a" for b :: real
    by (simp add: max_def)
  then show ?case using Cons.IH by simp
qed

lemma foldl_foldl_concat: "foldl (\<lambda>m frame. foldl f m frame) a xss = foldl f a (concat xss)"
  by (induction xss arbitrary: a) simp_all

lemma maxAmplitude_Max: "maxAmplitude dat = Max (insert 0 (set (concat dat)))"
proof -
  have "maxAmplitude dat = foldl (\<lambda>m v. if v > m then v else m) 0 (concat dat)"
    by (simp add: maxAmplitude_def foldl_foldl_concat)
  also have "\<dots> = fold max (concat dat) 0" by (rule foldl_max_fold)
  also have "\<dots> = Max (set (0 # concat dat))" by (rule Max.set_eq_fold [symmetric])
  finally show ?thesis by simp
qed

lemma effectiveThreshold_max:
  "effectiveThreshold p s = max (AbsoluteThreshold p) (maxAmplitude (Data s) * RelativeThreshold p)"
  by (simp add: effectiveThreshold_def Let_def max_def)

lemma index2_in_concat:
  assumes "index2 d t f = Inr a"
  shows "a \<in> set (concat d)"
proof -
  from assms have "nat t < length d" "nat f < length (d ! nat t)" "a = d ! nat t ! nat f"
    by (auto simp: index2_def index_def bindE_def len_def split: if_splits)
  then have "d ! nat t \<in> set d" "a \<in> set (d ! nat t)" by simp_all
  then show ?thesis by auto
qed

text \<open>
  A value read from the spectrogram that passes the threshold of the source also passes
  the threshold taken with the true maximum of the spectrogram: the two differ only
  when every value is negative, and then no value passes the source's threshold.
\<close>

lemma threshold_true_max:
  assumes "index2 (Data s) t f = Inr a" and "a \<ge> effectiveThreshold p s"
  shows "a \<ge> max (AbsoluteThreshold p) (RelativeThreshold p * Max (set (concat (Data s))))"
proof -
  let ?G = "Max (set (concat (Data s)))"
  have mem: "a \<in> set (concat (Data s))" using assms(1) by (rule index2_in_concat)
  then have aG: "a \<le> ?G" by simp
  have ne: "set (concat (Data s)) \<noteq> {}" using mem by (metis empty_iff)
  have Gc: "maxAmplitude (Data s) = max 0 ?G"
    using ne by (simp add: maxAmplitude_Max)
  have a1: "a \<ge> AbsoluteThreshold p" and a2: "a \<ge> max 0 ?G * RelativeThreshold p"
    using assms(2) by (simp_all add: effectiveThreshold_max Gc)
  show ?thesis
  proof (cases "0 \<le> ?G")
    case True
    then show ?thesis using a1 a2 by (simp add: max_def mult.commute)
  next
    case False
    then have "a \<ge> 0" using a2 by (simp add: max_def)
    then show ?thesis using aG False by simp
  qed
qed

lemma framePeaks_members:
  assumes "framePeaks p s thr band t = Inr cands" and "pk \<in> set cands"
  shows "fst band \<le> FreqIndex pk" and "FreqIndex pk \<le> snd band"
    and "peakAt p s thr t (FreqIndex pk) pk"
  using framePeaks_loop [OF assms(1) [unfolded framePeaks_def]] assms(2) by auto

lemma framePeaks_complete:
  assumes "framePeaks p s thr band t = Inr cands"
    and "fst band \<le> f" and "f \<le> snd band"
    and "index2 (Data s) t f = Inr a" and "a \<ge> thr"
  shows "\<exists>b. isLocalMax p s t f a = Inr b \<and> (b \<longrightarrow> (\<exists>pk \<in> set cands. FreqIndex pk = f))"
proof -
  from framePeaks_loop [OF assms(1) [unfolded framePeaks_def]]
  have "\<forall>f \<in> set (below (fst band) (snd band + 1)). \<exists>a. index2 (Data s) t f = Inr a
                  \<and> (a \<ge> thr \<longrightarrow>
                        (\<exists>b. isLocalMax p s t f a = Inr b
                           \<and> (b \<longrightarrow> (\<exists>pk \<in> set cands. FreqIndex pk = f))))"
    by auto
  moreover have "f \<in> set (below (fst band) (snd band + 1))" using assms(2,3) by simp
  ultimately show ?thesis using assms(4,5) by fastforce
qed

lemma peaks_members:
  assumes "sortSliceContract srt" and "ExtractPeaks srt p (Some s) = Inr peaks"
    and "pk \<in> set peaks"
  shows "0 \<le> TimeIndex pk" and "TimeIndex pk < TimeBins s"
    and "fst (freqIndexRange p s) \<le> FreqIndex pk" and "FreqIndex pk \<le> snd (freqIndexRange p s)"
    and "peakAt p s (effectiveThreshold p s) (TimeIndex pk) (FreqIndex pk) pk"
proof -
  from ExtractPeaks_Inr [OF assms(1,2)] obtain cands where
    c: "\<forall>t. 0 \<le> t \<and> t < TimeBins s \<longrightarrow>
              framePeaks p s (effectiveThreshold p s) (freqIndexRange p s) t = Inr (cands t)
              \<and> (cands t \<noteq> [] \<longrightarrow> 0 \<le> MaxPeaksPerFrame p)"
    and pks: "peaks = concat (map (\<lambda>t. take (nat (MaxPeaksPerFrame p)) (srt (cands t)))
                                  (below 0 (TimeBins s)))"
    by blast
  from assms(3) pks obtain t where t: "0 \<le> t" "t < TimeBins s"
    "pk \<in> set (take (nat (MaxPeaksPerFrame p)) (srt (cands t)))"
    by auto
  then have "pk \<in> set (srt (cands t))" by (meson in_set_takeD)
  then have mem: "pk \<in> set (cands t)" using contract_set [OF assms(1)] by simp
  from c t have fp: "framePeaks p s (effectiveThreshold p s) (freqIndexRange p s) t
      = Inr (cands t)" by simp
  note m = framePeaks_members [OF fp mem]
  have ti: "TimeIndex pk = t" using m(3) by (simp add: peakAt_def)
  show "0 \<le> TimeIndex pk" "TimeIndex pk < TimeBins s" using t ti by simp_all
  show "fst (freqIndexRange p s) \<le> FreqIndex pk" "FreqIndex pk \<le> snd (freqIndexRange p s)"
    using m(1,2) by simp_all
  show "peakAt p s (effectiveThreshold p s) (TimeIndex pk) (FreqIndex pk) pk"
    using m(3) ti by simp
qed

text \<open>
  Claim C3. Every peak returned by \<open>ExtractPeaks\<close> carries the value of its cell, that
  value is at least \<open>max(AbsoluteThreshold, RelativeThreshold * G)\<close> for the maximum \<open>G\<close> of
  the whole spectrogram, and it is at least the value of every cell within
  \<open>NeighborhoodSize\<close> bins in time and frequency that lies inside the spectrogram bounds.
  A cell of the band that passes the threshold is among the candidates of its frame
  exactly when no other cell of its window, inside the bounds, holds a strictly larger
  value: a larger neighbour removes it, an equal one does not.
\<close>

theorem C3_peaks_pass_threshold_and_dominate:
  assumes "sortSliceContract srt" and "ExtractPeaks srt p (Some s) = Inr peaks"
  shows "(\<forall>pk \<in> set peaks.
            index2 (Data s) (TimeIndex pk) (FreqIndex pk) = Inr (Amplitude pk)
            \<and> Amplitude pk \<ge> max (AbsoluteThreshold p)
                                 (RelativeThreshold p * Max (set (concat (Data s))))
            \<and> (\<forall>nt nf. \<bar>nt - TimeIndex pk\<bar> \<le> NeighborhoodSize p
                      \<and> \<bar>nf - FreqIndex pk\<bar> \<le> NeighborhoodSize p
                      \<and> 0 \<le> nt \<and> nt < TimeBins s \<and> 0 \<le> nf \<and> nf < FreqBins s
                  \<longrightarrow> (\<exists>v. index2 (Data s) nt nf = Inr v \<and> v \<le> Amplitude pk)))
     \<and> (\<forall>t f a. 0 \<le> t \<and> t < TimeBins s
                \<and> fst (freqIndexRange p s) \<le> f \<and> f \<le> snd (freqIndexRange p s)
                \<and> index2 (Data s) t f = Inr a \<and> a \<ge> effectiveThreshold p s
            \<longrightarrow> (\<exists>cands. framePeaks p s (effectiveThreshold p s) (freqIndexRange p s) t
                             = Inr cands
                  \<and> ((\<exists>pk \<in> set cands. FreqIndex pk = f \<and> Amplitude pk = a)
                      \<longleftrightarrow> \<not> (\<exists>nt nf. \<bar>nt - t\<bar> \<le> NeighborhoodSize p
                                   \<and> \<bar>nf - f\<bar> \<le> NeighborhoodSize p
                                   \<and> (nt, nf) \<noteq> (t, f) \<and> louder s a nt nf))))"
proof (intro conjI ballI allI impI)
  fix pk assume mem: "pk \<in> set peaks"
  note m = peaks_members [OF assms mem]
  from m(5) have rd: "index2 (Data s) (TimeIndex pk) (FreqIndex pk) = Inr (Amplitude pk)"
    and thr: "Amplitude pk \<ge> effectiveThreshold p s"
    and lm: "isLocalMax p s (TimeIndex pk) (FreqIndex pk) (Amplitude pk) = Inr True"
    by (simp_all add: peakAt_def)
  show "index2 (Data s) (TimeIndex pk) (FreqIndex pk) = Inr (Amplitude pk)" by (rule rd)
  show "Amplitude pk \<ge> max (AbsoluteThreshold p)
                            (RelativeThreshold p * Max (set (concat (Data s))))"
    using threshold_true_max [OF rd thr] .
  fix nt nf
  assume w: "\<bar>nt - TimeIndex pk\<bar> \<le> NeighborhoodSize p
                      \<and> \<bar>nf - FreqIndex pk\<bar> \<le> NeighborhoodSize p
                      \<and> 0 \<le> nt \<and> nt < TimeBins s \<and> 0 \<le> nf \<and> nf < FreqBins s"
  show "\<exists>v. index2 (Data s) nt nf = Inr v \<and> v \<le> Amplitude pk"
  proof (cases "(nt, nf) = (TimeIndex pk, FreqIndex pk)")
    case True
    then show ?thesis using rd by auto
  next
    case False
    with isLocalMax_Inr(1) [OF lm] w have "quieter s (Amplitude pk) nt nf" by blast
    then show ?thesis using w by (simp add: quieter_def)
  qed
next
  fix t f a
  assume h: "0 \<le> t \<and> t < TimeBins s
                \<and> fst (freqIndexRange p s) \<le> f \<and> f \<le> snd (freqIndexRange p s)
                \<and> index2 (Data s) t f = Inr a \<and> a \<ge> effectiveThreshold p s"
  from ExtractPeaks_Inr [OF assms] h obtain cands where
    fp: "framePeaks p s (effectiveThreshold p s) (freqIndexRange p s) t = Inr cands"
    by blast
  from framePeaks_complete [OF fp] h obtain b where
    b: "isLocalMax p s t f a = Inr b" "b \<longrightarrow> (\<exists>pk \<in> set cands. FreqIndex pk = f)"
    by blast
  have same: "Amplitude pk = a" if "pk \<in> set cands" "FreqIndex pk = f" for pk
    using framePeaks_members(3) [OF fp that(1)] that(2) h by (simp add: peakAt_def)
  have "(\<exists>pk \<in> set cands. FreqIndex pk = f \<and> Amplitude pk = a) \<longleftrightarrow> b"
  proof
    assume "\<exists>pk \<in> set cands. FreqIndex pk = f \<and> Amplitude pk = a"
    then obtain pk where pk: "pk \<in> set cands" "FreqIndex pk = f" "Amplitude pk = a" by blast
    from framePeaks_members(3) [OF fp pk(1)] pk(2,3)
    have "isLocalMax p s t f a = Inr True" by (simp add: peakAt_def)
    with b(1) show b by simp
  next
    assume b
    with b(2) same show "\<exists>pk \<in> set cands. FreqIndex pk = f \<and> Amplitude pk = a" by blast
  qed
  with isLocalMax_Inr(2) [OF b(1)] fp
  show "\<exists>cands. framePeaks p s (effectiveThreshold p s) (freqIndexRange p s) t = Inr cands
                  \<and> ((\<exists>pk \<in> set cands. FreqIndex pk = f \<and> Amplitude pk = a)
                      \<longleftrightarrow> \<not> (\<exists>nt nf. \<bar>nt - t\<bar> \<le> NeighborhoodSize p
                                   \<and> \<bar>nf - f\<bar> \<le> NeighborhoodSize p
                                   \<and> (nt, nf) \<noteq> (t, f) \<and> louder s a nt nf))"
    by blast
qed

lemma filter_concat_key:
  assumes "distinct ts" and "\<And>t' x. t' \<in> set ts \<Longrightarrow> x \<in> set (g t') \<Longrightarrow> key x = t'"
  shows "filter (\<lambda>x. key x = t) (concat (map g ts)) = (if t \<in> set ts then g t else [])"
  using assms
proof (induction ts)
  case Nil
  then show ?case by simp
next
  case (Cons u ts)
  have k: "key x = u" if "x \<in> set (g u)" for x using Cons.prems(2) that by simp
  have IH: "filter (\<lambda>x. key x = t) (concat (map g ts)) = (if t \<in> set ts then g t else [])"
    using Cons by simp
  show ?case
  proof (cases "t = u")
    case True
    then have "filter (\<lambda>x. key x = t) (g u) = g u" using k by (simp add: filter_id_conv)
    moreover have "t \<notin> set ts" using True Cons.prems(1) by simp
    ultimately show ?thesis using IH True by simp
  next
    case False
    then have "filter (\<lambda>x. key x = t) (g u) = []" using k by (auto simp: filter_empty_conv)
    then show ?thesis using IH False by simp
  qed
qed

lemma sorted_concat_key:
  fixes key :: "'a \<Rightarrow> int"
  assumes "sorted ts" and "\<And>t' x. t' \<in> set ts \<Longrightarrow> x \<in> set (g t') \<Longrightarrow> key x = t'"
  shows "sorted_wrt (\<lambda>a b. key a \<le> key b) (concat (map g ts))"
  using assms
proof (induction ts)
  case Nil
  then show ?case by simp
next
  case (Cons u ts)
  have k: "key x = u" if "x \<in> set (g u)" for x using Cons.prems(2) that by simp
  have "sorted_wrt (\<lambda>a b. True) (g u)" by simp
  then have here: "sorted_wrt (\<lambda>a b. key a \<le> key b) (g u)"
    by (rule sorted_wrt_mono_rel [rotated]) (simp add: k)
  have later: "sorted_wrt (\<lambda>a b. key a \<le> key b) (concat (map g ts))"
    using Cons by simp
  have cross: "key x \<le> key y" if "x \<in> set (g u)" "y \<in> set (concat (map g ts))" for x y
  proof -
    from that(2) obtain v where v: "v \<in> set ts" "y \<in> set (g v)" by auto
    then have "key y = v" using Cons.prems(2) by simp
    moreover have "u \<le> v" using Cons.prems(1) v(1) by simp
    ultimately show ?thesis using k [OF that(1)] by simp
  qed
  show ?case using here later cross by (simp add: sorted_wrt_append)
qed

text \<open>
  Claim C8. With a non-negative \<open>MaxPeaksPerFrame\<close>, the peaks returned by
  \<open>ExtractPeaks\<close> are listed in ascending order of \<open>TimeIndex\<close>; those of one frame
  are at most \<open>MaxPeaksPerFrame\<close>, in descending order of amplitude; and they are the
  largest of the frame's candidates: the candidates are the retained peaks together with
  a remainder, the retained ones number \<open>min(MaxPeaksPerFrame, number of candidates)\<close>, and
  no peak of the remainder has a larger amplitude than a retained one.
\<close>

theorem C8_per_frame_cap:
  assumes "sortSliceContract srt" and "0 \<le> MaxPeaksPerFrame p"
    and "ExtractPeaks srt p (Some s) = Inr peaks"
  shows "sorted_wrt (\<lambda>a b. TimeIndex a \<le> TimeIndex b) peaks
     \<and> (\<forall>t. len (filter (\<lambda>pk. TimeIndex pk = t) peaks) \<le> MaxPeaksPerFrame p
            \<and> sorted_wrt (\<lambda>a b. Amplitude a \<ge> Amplitude b)
                  (filter (\<lambda>pk. TimeIndex pk = t) peaks))
     \<and> (\<forall>t. 0 \<le> t \<and> t < TimeBins s \<longrightarrow>
            (\<exists>cands rest.
               framePeaks p s (effectiveThreshold p s) (freqIndexRange p s) t = Inr cands
               \<and> mset cands = mset (filter (\<lambda>pk. TimeIndex pk = t) peaks) + mset rest
               \<and> len (filter (\<lambda>pk. TimeIndex pk = t) peaks)
                   = min (MaxPeaksPerFrame p) (len cands)
               \<and> (\<forall>r \<in> set (filter (\<lambda>pk. TimeIndex pk = t) peaks).
                     \<forall>c \<in> set rest. Amplitude c \<le> Amplitude r)))"
proof -
  let ?thr = "effectiveThreshold p s" and ?band = "freqIndexRange p s"
  let ?K = "nat (MaxPeaksPerFrame p)"
  from ExtractPeaks_Inr [OF assms(1,3)] obtain cands where
    c: "\<And>t. 0 \<le> t \<Longrightarrow> t < TimeBins s \<Longrightarrow> framePeaks p s ?thr ?band t = Inr (cands t)"
    and pks: "peaks = concat (map (\<lambda>t. take ?K (srt (cands t))) (below 0 (TimeBins s)))"
    by blast
  define g where "g = (\<lambda>t. take ?K (srt (cands t)))"
  define ts where "ts = below 0 (TimeBins s)"
  have ts: "sorted ts" "distinct ts" "set ts = {t. 0 \<le> t \<and> t < TimeBins s}"
    by (auto simp: ts_def below_def)
  have key: "TimeIndex x = t'" if "t' \<in> set ts" "x \<in> set (g t')" for t' x
  proof -
    have "x \<in> set (srt (cands t'))" using that(2) unfolding g_def by (meson in_set_takeD)
    then have "x \<in> set (cands t')" using contract_set [OF assms(1)] by simp
    moreover have "framePeaks p s ?thr ?band t' = Inr (cands t')"
      using that(1) c ts(3) by simp
    ultimately show ?thesis using framePeaks_members(3) by (fastforce simp: peakAt_def)
  qed
  have pks': "peaks = concat (map g ts)" using pks by (simp add: g_def ts_def)
  have sel: "filter (\<lambda>pk. TimeIndex pk = t) peaks = (if t \<in> set ts then g t else [])" for t
    unfolding pks' using ts(2) key by (rule filter_concat_key)
  have srt_sorted: "sorted_wrt (\<lambda>a b. Amplitude a \<ge> Amplitude b) (srt xs)" for xs
    using contract_sorted [OF assms(1)] .
  have g_sorted: "sorted_wrt (\<lambda>a b. Amplitude a \<ge> Amplitude b) (g t)" for t
    unfolding g_def using srt_sorted [of "cands t"] by (rule sorted_wrt_take)
  have g_len: "len (g t) \<le> MaxPeaksPerFrame p" for t
    using assms(2) by (simp add: g_def len_def)
  have first: "sorted_wrt (\<lambda>a b. TimeIndex a \<le> TimeIndex b) peaks"
    unfolding pks' using ts(1) key by (rule sorted_concat_key)
  have second: "len (filter (\<lambda>pk. TimeIndex pk = t) peaks) \<le> MaxPeaksPerFrame p
            \<and> sorted_wrt (\<lambda>a b. Amplitude a \<ge> Amplitude b)
                  (filter (\<lambda>pk. TimeIndex pk = t) peaks)" for t
    using g_len [of t] g_sorted [of t] assms(2) by (simp add: sel len_def)
  have third: "\<exists>cs rest.
               framePeaks p s ?thr ?band t = Inr cs
               \<and> mset cs = mset (filter (\<lambda>pk. TimeIndex pk = t) peaks) + mset rest
               \<and> len (filter (\<lambda>pk. TimeIndex pk = t) peaks)
                   = min (MaxPeaksPerFrame p) (len cs)
               \<and> (\<forall>r \<in> set (filter (\<lambda>pk. TimeIndex pk = t) peaks).
                     \<forall>c \<in> set rest. Amplitude c \<le> Amplitude r)"
    if "0 \<le> t \<and> t < TimeBins s" for t
  proof -
    have mem: "t \<in> set ts" using that ts(3) by simp
    have fp: "framePeaks p s ?thr ?band t = Inr (cands t)" using that c by simp
    define rest where "rest = drop ?K (srt (cands t))"
    have split: "srt (cands t) = g t @ rest" by (simp add: g_def rest_def)
    have "mset (cands t) = mset (srt (cands t))"
      using contract_mset [OF assms(1)] by simp
    then have m: "mset (cands t) = mset (g t) + mset rest" by (simp add: split)
    have l: "len (g t) = min (MaxPeaksPerFrame p) (len (cands t))"
      using assms(2) contract_length [OF assms(1), of "cands t"]
      by (simp add: g_def len_def min_def) linarith
    have d: "\<forall>r \<in> set (g t). \<forall>c \<in> set rest. Amplitude c \<le> Amplitude r"
      using srt_sorted [of "cands t"] unfolding split by (simp add: sorted_wrt_append)
    show ?thesis using fp m l d mem by (auto simp: sel)
  qed
  show ?thesis using first second third by blast
qed

section \<open>Properties: the peak extractor on example inputs\<close>

lemma mset_insertPeak: "mset (insertPeak x xs) = add_mset x (mset xs)"
  by (induction xs) simp_all

lemma set_insertPeak: "set (insertPeak x xs) = insert x (set xs)"
  by (induction xs) auto

lemma sorted_insertPeak:
  "sorted_wrt (\<lambda>a b. \<not> Amplitude b > Amplitude a) xs
   \<Longrightarrow> sorted_wrt (\<lambda>a b. \<not> Amplitude b > Amplitude a) (insertPeak x xs)"
  by (induction xs) (auto simp: set_insertPeak)

lemma sortPeaks_contract: "sortSliceContract sortPeaks"
proof -
  have "mset (sortPeaks xs) = mset xs" for xs
    by (induction xs) (simp_all add: mset_insertPeak)
  moreover have "sorted_wrt (\<lambda>a b. \<not> Amplitude b > Amplitude a) (sortPeaks xs)" for xs
    by (induction xs) (simp_all add: sorted_insertPeak)
  ultimately show ?thesis by (simp add: sortSliceContract_def)
qed

lemma ridge_band: "NeighborhoodSize p = 1 \<Longrightarrow> MinFrequency p = 100 \<Longrightarrow> MaxFrequency p = 4000
  \<Longrightarrow> freqIndexRange p ridge = (1, 3)"
  by (simp add: freqIndexRange_def ridge_def len_def)

lemma ridge_threshold:
  "AbsoluteThreshold p = 1 / 100 \<Longrightarrow> RelativeThreshold p = 1 / 10
   \<Longrightarrow> effectiveThreshold p ridge = 3 / 5"
  by (simp add: effectiveThreshold_def maxAmplitude_def ridge_def)

lemma ridge_cells:
  "index2 (Data ridge) 0 0 = Inr 1" "index2 (Data ridge) 0 1 = Inr 4"
  "index2 (Data ridge) 0 2 = Inr 4" "index2 (Data ridge) 0 3 = Inr 6"
  by (simp_all add: ridge_def index2_def index_def len_def)

lemma ridge_isLocalMax:
  assumes "NeighborhoodSize p = 1"
  shows "isLocalMax p ridge 0 1 4 = Inr True" "isLocalMax p ridge 0 2 4 = Inr False"
    "isLocalMax p ridge 0 3 6 = Inr True"
  using assms
  by (simp_all add: isLocalMax_def below_def upto_rec1 ridge_cells)
     (simp_all add: ridge_def)

lemma ridge_framePeaks:
  assumes "NeighborhoodSize p = 1"
  shows "framePeaks p ridge (3 / 5) (1, 3) 0 = Inr [ridgeLow, ridgeHigh]"
proof -
  have v1: "visitBin p ridge (3 / 5) 0 1 acc = Inr (acc @ [ridgeLow])" for acc
    by (simp add: visitBin_def ridge_cells ridge_isLocalMax [OF assms])
       (simp add: ridge_def index_def len_def ridgeLow_def)
  have v2: "visitBin p ridge (3 / 5) 0 2 acc = Inr acc" for acc
    by (simp add: visitBin_def ridge_cells ridge_isLocalMax [OF assms])
  have v3: "visitBin p ridge (3 / 5) 0 3 acc = Inr (acc @ [ridgeHigh])" for acc
    by (simp add: visitBin_def ridge_cells ridge_isLocalMax [OF assms])
       (simp add: ridge_def index_def len_def ridgeHigh_def)
  show ?thesis by (simp add: framePeaks_def below_def upto_rec1 v1 v2 v3)
qed

lemma sortPeaks_ridge: "sortPeaks [ridgeLow, ridgeHigh] = [ridgeHigh, ridgeLow]"
  by (simp add: ridgeLow_def ridgeHigh_def)

lemma ridge_shape: "len (Data ridge) = 1" "len (Data ridge ! 0) = 4" "TimeBins ridge = 1"
  by (simp_all add: ridge_def len_def)

lemma ExtractPeaks_narrow_ridge:
  "ExtractPeaks sortPeaks narrow (Some ridge) = Inr [ridgeHigh, ridgeLow]"
proof -
  have cfg: "NeighborhoodSize narrow = 1" "MinFrequency narrow = 100"
    "MaxFrequency narrow = 4000" "AbsoluteThreshold narrow = 1 / 100"
    "RelativeThreshold narrow = 1 / 10" "MaxPeaksPerFrame narrow = 5"
    by (simp_all add: narrow_def NewPeakExtractor_def)
  have vf: "visitFrame sortPeaks narrow ridge (3 / 5) (1, 3) 0 [] = Inr [ridgeHigh, ridgeLow]"
    by (simp add: visitFrame_def ridge_framePeaks [OF cfg(1)] len_def Let_def cfg(6)
        sortPeaks_ridge del: sortPeaks.simps)
  show ?thesis
    by (simp add: ExtractPeaks_def ridge_band [OF cfg(1-3)] ridge_threshold [OF cfg(4,5)]
        ridge_shape below_def upto_rec1 vf)
qed

lemma ExtractPeaks_capOne_ridge:
  "ExtractPeaks sortPeaks capOne (Some ridge) = Inr [ridgeHigh]"
proof -
  have cfg: "NeighborhoodSize capOne = 1" "MinFrequency capOne = 100"
    "MaxFrequency capOne = 4000" "AbsoluteThreshold capOne = 1 / 100"
    "RelativeThreshold capOne = 1 / 10" "MaxPeaksPerFrame capOne = 1"
    by (simp_all add: capOne_def NewPeakExtractor_def)
  have vf: "visitFrame sortPeaks capOne ridge (3 / 5) (1, 3) 0 [] = Inr [ridgeHigh]"
    by (simp add: visitFrame_def ridge_framePeaks [OF cfg(1)] len_def Let_def cfg(6)
        sortPeaks_ridge slice_def del: sortPeaks.simps)
  show ?thesis
    by (simp add: ExtractPeaks_def ridge_band [OF cfg(1-3)] ridge_threshold [OF cfg(4,5)]
        ridge_shape below_def upto_rec1 vf)
qed


theorem C3_peaks_pass_threshold_and_dominate_witness:
  "sortSliceContract sortPeaks
   \<and> ExtractPeaks sortPeaks narrow (Some ridge) = Inr [ridgeHigh, ridgeLow]
   \<and> index2 (Data ridge) (TimeIndex ridgeLow) (FreqIndex ridgeLow) = Inr (Amplitude ridgeLow)
   \<and> Amplitude ridgeLow \<ge> max (AbsoluteThreshold narrow)
                                (RelativeThreshold narrow * Max (set (concat (Data ridge))))
   \<and> (\<exists>v. index2 (Data ridge) 0 2 = Inr v \<and> v \<le> Amplitude ridgeLow)"
proof -
  note run = ExtractPeaks_narrow_ridge
  from C3_peaks_pass_threshold_and_dominate [OF sortPeaks_contract run]
  have all: "\<forall>pk \<in> set [ridgeHigh, ridgeLow].
            index2 (Data ridge) (TimeIndex pk) (FreqIndex pk) = Inr (Amplitude pk)
            \<and> Amplitude pk \<ge> max (AbsoluteThreshold narrow)
                                 (RelativeThreshold narrow * Max (set (concat (Data ridge))))
            \<and> (\<forall>nt nf. \<bar>nt - TimeIndex pk\<bar> \<le> NeighborhoodSize narrow
                      \<and> \<bar>nf - FreqIndex pk\<bar> \<le> NeighborhoodSize narrow
                      \<and> 0 \<le> nt \<and> nt < TimeBins ridge \<and> 0 \<le> nf \<and> nf < FreqBins ridge
                  \<longrightarrow> (\<exists>v. index2 (Data ridge) nt nf = Inr v \<and> v \<le> Amplitude pk))"
    by blast
  have "ridgeLow \<in> set [ridgeHigh, ridgeLow]" by simp
  from bspec [OF all this]
  have a: "index2 (Data ridge) (TimeIndex ridgeLow) (FreqIndex ridgeLow)
             = Inr (Amplitude ridgeLow)"
    and b: "Amplitude ridgeLow \<ge> max (AbsoluteThreshold narrow)
                                 (RelativeThreshold narrow * Max (set (concat (Data ridge))))"
    and c: "\<forall>nt nf. \<bar>nt - TimeIndex ridgeLow\<bar> \<le> NeighborhoodSize narrow
                      \<and> \<bar>nf - FreqIndex ridgeLow\<bar> \<le> NeighborhoodSize narrow
                      \<and> 0 \<le> nt \<and> nt < TimeBins ridge \<and> 0 \<le> nf \<and> nf < FreqBins ridge
                  \<longrightarrow> (\<exists>v. index2 (Data ridge) nt nf = Inr v \<and> v \<le> Amplitude ridgeLow)"
    by blast+
  from spec [OF spec [OF c, of 0], of 2]
  have "\<exists>v. index2 (Data ridge) 0 2 = Inr v \<and> v \<le> Amplitude ridgeLow"
    by (simp add: ridgeLow_def narrow_def ridge_def)
  then show ?thesis using sortPeaks_contract run a b by blast
qed

theorem C8_per_frame_cap_witness:
  "sortSliceContract sortPeaks \<and> 0 \<le> MaxPeaksPerFrame capOne
   \<and> ExtractPeaks sortPeaks capOne (Some ridge) = Inr [ridgeHigh]
   \<and> len (filter (\<lambda>pk. TimeIndex pk = 0) [ridgeHigh]) \<le> MaxPeaksPerFrame capOne
   \<and> (\<exists>cands rest.
         framePeaks capOne ridge (effectiveThreshold capOne ridge) (freqIndexRange capOne ridge) 0
           = Inr cands
         \<and> mset cands = mset (filter (\<lambda>pk. TimeIndex pk = 0) [ridgeHigh]) + mset rest
         \<and> len (filter (\<lambda>pk. TimeIndex pk = 0) [ridgeHigh])
             = min (MaxPeaksPerFrame capOne) (len cands))"
proof -
  have k: "0 \<le> MaxPeaksPerFrame capOne" by (simp add: capOne_def NewPeakExtractor_def)
  note run = ExtractPeaks_capOne_ridge
  note inst = C8_per_frame_cap [OF sortPeaks_contract k run]
  from inst have cap: "\<forall>t. len (filter (\<lambda>pk. TimeIndex pk = t) [ridgeHigh])
                        \<le> MaxPeaksPerFrame capOne
            \<and> sorted_wrt (\<lambda>a b. Amplitude a \<ge> Amplitude b)
                  (filter (\<lambda>pk. TimeIndex pk = t) [ridgeHigh])"
    by blast
  from inst have top: "\<forall>t. 0 \<le> t \<and> t < TimeBins ridge \<longrightarrow>
            (\<exists>cands rest.
               framePeaks capOne ridge (effectiveThreshold capOne ridge)
                 (freqIndexRange capOne ridge) t = Inr cands
               \<and> mset cands = mset (filter (\<lambda>pk. TimeIndex pk = t) [ridgeHigh]) + mset rest
               \<and> len (filter (\<lambda>pk. TimeIndex pk = t) [ridgeHigh])
                   = min (MaxPeaksPerFrame capOne) (len cands)
               \<and> (\<forall>r \<in> set (filter (\<lambda>pk. TimeIndex pk = t) [ridgeHigh]).
                     \<forall>c \<in> set rest. Amplitude c \<le> Amplitude r))"
    by blast
  have "0 \<le> (0::int) \<and> 0 < TimeBins ridge" by (simp add: ridge_def)
  with spec [OF top, of 0] have "\<exists>cands rest.
         framePeaks capOne ridge (effectiveThreshold capOne ridge) (freqIndexRange capOne ridge) 0
           = Inr cands
         \<and> mset cands = mset (filter (\<lambda>pk. TimeIndex pk = 0) [ridgeHigh]) + mset rest
         \<and> len (filter (\<lambda>pk. TimeIndex pk = 0) [ridgeHigh])
             = min (MaxPeaksPerFrame capOne) (len cands)"
    by blast
  with spec [OF cap, of 0] sortPeaks_contract k run show ?thesis by blast
qed

section \<open>Properties: ExtractPeaks returns on well-formed spectrograms\<close>

lemma forE_total:
  assumes "\<And>i st. i \<in> set js \<Longrightarrow> \<exists>st'. body i st = Inr st'"
  shows "\<exists>out. forE js body st = Inr out"
  using assms
proof (induction js arbitrary: st)
  case Nil
  then show ?case by simp
next
  case (Cons j js)
  from Cons.prems [of j st] obtain mid where "body j st = Inr mid" by auto
  moreover from Cons.IH [of mid] Cons.prems obtain out where "forE js body mid = Inr out"
    by auto
  ultimately show ?case by simp
qed

lemma freqIndexLoop_bounds:
  assumes "freqIndexLoop p fs i (lo, hi) = (lo', hi')"
    and "0 \<le> i" and "0 \<le> lo" and "hi \<le> i + len fs - 1"
  shows "0 \<le> lo' \<and> hi' \<le> i + len fs - 1"
  using assms
proof (induction fs arbitrary: i lo hi)
  case Nil
  then show ?case by simp
next
  case (Cons freq rest)
  define lo1 where "lo1 = (if freq \<ge> MinFrequency p \<and> lo = 0 then i else lo)"
  have l1: "0 \<le> lo1" using Cons.prems(2,3) by (simp add: lo1_def)
  show ?case
  proof (cases "freq > MaxFrequency p")
    case True
    then have "lo' = lo1" "hi' = i - 1" using Cons.prems(1) by (simp_all add: lo1_def Let_def)
    then show ?thesis using l1 by (simp add: len_def)
  next
    case False
    then have "freqIndexLoop p rest (i + 1) (lo1, hi) = (lo', hi')"
      using Cons.prems(1) by (simp add: lo1_def Let_def)
    from Cons.IH [OF this] Cons.prems(2,4) l1 show ?thesis by (simp add: len_def)
  qed
qed

lemma freqIndexRange_bounds:
  "0 \<le> fst (freqIndexRange p s) \<and> snd (freqIndexRange p s) \<le> len (FreqPoints s) - 1"
proof -
  obtain lo hi where r: "freqIndexRange p s = (lo, hi)" by (cases "freqIndexRange p s")
  then have "freqIndexLoop p (FreqPoints s) 0 (0, len (FreqPoints s) - 1) = (lo, hi)"
    by (simp add: freqIndexRange_def)
  from freqIndexLoop_bounds [OF this] r show ?thesis by simp
qed

lemma wellFormed_index2:
  assumes "wellFormed s" and "0 \<le> t" and "t < TimeBins s" and "0 \<le> f" and "f < FreqBins s"
  shows "\<exists>v. index2 (Data s) t f = Inr v"
proof -
  have t: "nat t < length (Data s)" using assms(1-3) by (simp add: wellFormed_def len_def)
  then have "Data s ! nat t \<in> set (Data s)" by simp
  then have "len (Data s ! nat t) = FreqBins s" using assms(1) by (simp add: wellFormed_def)
  then show ?thesis using assms t by (simp add: index2_def index_def len_def)
qed

lemma scanDf_total:
  assumes "wellFormed s"
  shows "\<exists>b. scanDf s t f a dt dfs = Inr b"
proof (induction dfs)
  case Nil
  then show ?case by auto
next
  case (Cons df dfs)
  show ?case
  proof (cases "t + dt \<ge> 0 \<and> t + dt < TimeBins s \<and> f + df \<ge> 0 \<and> f + df < FreqBins s")
    case True
    then obtain v where "index2 (Data s) (t + dt) (f + df) = Inr v"
      using wellFormed_index2 [OF assms, of "t + dt" "f + df"] by auto
    then show ?thesis using Cons True by (auto simp: Let_def)
  next
    case False
    then show ?thesis using Cons by (auto simp: Let_def)
  qed
qed

lemma scanDt_total:
  assumes "wellFormed s"
  shows "\<exists>b. scanDt s t f a dts dfs = Inr b"
proof (induction dts)
  case Nil
  then show ?case by auto
next
  case (Cons dt dts)
  obtain b1 where "scanDf s t f a dt dfs = Inr b1" using scanDf_total [OF assms] by blast
  then show ?case using Cons by (cases b1) auto
qed

lemma visitBin_total:
  assumes "wellFormed s" and "0 \<le> t" and "t < TimeBins s" and "0 \<le> f" and "f < FreqBins s"
  shows "\<exists>out. visitBin p s thr t f acc = Inr out"
proof -
  obtain a where a: "index2 (Data s) t f = Inr a" using wellFormed_index2 [OF assms] by blast
  obtain b where b: "isLocalMax p s t f a = Inr b"
    using scanDt_total [OF assms(1)] unfolding isLocalMax_def by blast
  have "\<exists>time. index (TimePoints s) t = Inr time" "\<exists>freq. index (FreqPoints s) f = Inr freq"
    using assms by (simp_all add: wellFormed_def index_def)
  then show ?thesis using a b by (auto simp: visitBin_def)
qed

lemma framePeaks_total:
  assumes "wellFormed s" and "0 \<le> t" and "t < TimeBins s"
  shows "\<exists>cands. framePeaks p s thr (freqIndexRange p s) t = Inr cands"
  unfolding framePeaks_def
proof (rule forE_total)
  fix f st
  assume "f \<in> set (below (fst (freqIndexRange p s)) (snd (freqIndexRange p s) + 1))"
  then have "0 \<le> f" "f < FreqBins s"
    using freqIndexRange_bounds [of p s] assms(1) by (auto simp: wellFormed_def)
  then show "\<exists>st'. visitBin p s thr t f st = Inr st'"
    using visitBin_total [OF assms(1-3)] by blast
qed

text \<open>
  On a well-formed spectrogram, with a non-negative cap, \<open>ExtractPeaks\<close> returns a list
  of peaks: no read leaves a slice and no error is raised.
\<close>

lemma ExtractPeaks_returns:
  assumes "wellFormed s" and "0 \<le> MaxPeaksPerFrame p"
  shows "\<exists>peaks. ExtractPeaks srt p (Some s) = Inr peaks"
proof -
  have ne: "len (Data s) \<noteq> 0" "len (Data s ! 0) \<noteq> 0"
  proof -
    show "len (Data s) \<noteq> 0" using assms(1) by (simp add: wellFormed_def len_def)
    have "Data s ! 0 \<in> set (Data s)" using assms(1) by (simp add: wellFormed_def)
    then show "len (Data s ! 0) \<noteq> 0" using assms(1) by (auto simp: wellFormed_def)
  qed
  have "\<exists>out. forE (below 0 (TimeBins s))
          (visitFrame srt p s (effectiveThreshold p s) (freqIndexRange p s)) [] = Inr out"
  proof (rule forE_total)
    fix t st
    assume "t \<in> set (below 0 (TimeBins s))"
    then have "0 \<le> t" "t < TimeBins s" by simp_all
    from framePeaks_total [OF assms(1) this] obtain cands where
      "framePeaks p s (effectiveThreshold p s) (freqIndexRange p s) t = Inr cands" by blast
    then show "\<exists>st'. visitFrame srt p s (effectiveThreshold p s) (freqIndexRange p s) t st
        = Inr st'"
      using assms(2) by (simp add: visitFrame_def Let_def slice_def)
  qed
  then show ?thesis using ne by (simp add: ExtractPeaks_def)
qed

end
